theory Spec2Isabelle
  imports Complex_Main "HOL-Library.Multiset" "HOL-Library.Char_ord" "HOL-Library.List_Lexorder"
    "HOL-Library.Word"
begin

text \<open>
  A model of \<open>openbr/plugins/independent.cpp\<close>: the function \<open>Downsample\<close> and the classes
  \<open>DownsampleTrainingTransform\<close>, \<open>IndependentTransform\<close> and \<open>SingletonTransform\<close>. Every
  function of the source is a function here, with the state it changes passed in and
  returned, and with the aborts of the source (a missing key, a call through a \<open>NULL\<close>
  pointer, a division by zero) as error results.
\<close>

section \<open>Data model: files, templates, template lists\<close>

text \<open>
  A \<open>File\<close> carries the metadata of a template. Of the key-value metadata the code of
  \<open>independent.cpp\<close> reads two things: a string-valued entry under a caller-chosen key
  (\<open>File::get<QString>(templates, inputVariable)\<close>) and the boolean entry \<open>"FTE"\<close> with
  default \<open>false\<close> (\<open>file.get<bool>("FTE", false)\<close>). The string-valued entries are the
  association list \<open>labels\<close>; the boolean entry is the field \<open>fte\<close>.
  A \<open>Template\<close> is a list of matrices plus a file (the field \<open>tfile\<close>, as \<open>file\<close> is
  reserved); the matrix type is a parameter.
\<close>

record File =
  name :: string
  labels :: "(string \<times> string) list"
  fte :: bool

record 'm Template =
  tfile :: File
  mats :: "'m list"

type_synonym 'm TemplateList = "'m Template list"

datatype error = MissingKey | NullDereference | DivisionByZero

text \<open>
  Modelled from the spec: \<open>File::get<QString>\<close> is declared outside \<open>independent.cpp\<close>. It
  extracts the label value under the key, for one file and, below, for every template of a
  list in order. A file without a value under the key makes the getter abort (\<open>qFatal\<close>);
  the abort is the result \<open>Inl MissingKey\<close>.
\<close>

definition get_label :: "File \<Rightarrow> string \<Rightarrow> string option" where
  "get_label f key = map_of (labels f) key"

fun File_get :: "'m TemplateList \<Rightarrow> string \<Rightarrow> error + string list" where
  "File_get [] key = Inr []"
| "File_get (t # ts) key =
     (case get_label (tfile t) key of
        None \<Rightarrow> Inl MissingKey
      | Some l \<Rightarrow> (case File_get ts key of Inl e \<Rightarrow> Inl e | Inr ls \<Rightarrow> Inr (l # ls)))"

section \<open>C integers, Qt list slicing, random shuffles\<close>

definition INT_MAX :: int where
  "INT_MAX = 2147483647"

definition INT_MIN :: int where
  "INT_MIN = - 2147483648"

text \<open>The value of a 32-bit \<open>int\<close> after an addition or subtraction: it wraps around.\<close>

definition int32 :: "int \<Rightarrow> int" where
  "int32 i = (i + 2 ^ 31) mod 2 ^ 32 - 2 ^ 31"

text \<open>\<open>abs\<close> on a 32-bit \<open>int\<close>: the negation of \<open>INT_MIN\<close> wraps around to \<open>INT_MIN\<close>.\<close>

definition c_abs :: "int \<Rightarrow> int" where
  "c_abs i = (if i = INT_MIN then INT_MIN else \<bar>i\<bar>)"

text \<open>
  \<open>QList::mid(pos, length)\<close> at \<open>pos = 0\<close>: a negative length, or one that reaches past
  the end, means "up to the end".
\<close>

definition mid0 :: "int \<Rightarrow> 'a list \<Rightarrow> 'a list" where
  "mid0 len xs = (if len < 0 \<or> int (length xs) < len then xs else take (nat len) xs)"

text \<open>The conversion of a floating-point value to \<open>int\<close> truncates towards zero.\<close>

definition c_int :: "real \<Rightarrow> int" where
  "c_int x = (if 0 \<le> x then \<lfloor>x\<rfloor> else \<lceil>x\<rceil>)"

text \<open>
  The random source is the stream of the future results of \<open>rand()\<close>; \<open>rand\<close> takes the
  first and returns the rest. \<open>std::random_shuffle\<close> walks the positions \<open>1, ..., n - 1\<close>
  and swaps position \<open>i\<close> with position \<open>rand() % (i + 1)\<close>. The properties proved below hold
  for every random source; of the shuffle they use only that it permutes its list.
\<close>

type_synonym rng = "nat \<Rightarrow> nat"

definition rand :: "rng \<Rightarrow> nat \<times> rng" where
  "rand g = (g 0, \<lambda>n. g (Suc n))"

definition iter_swap :: "nat \<Rightarrow> nat \<Rightarrow> 'a list \<Rightarrow> 'a list" where
  "iter_swap i j xs = xs[i := xs ! j, j := xs ! i]"

fun shuffle_from :: "nat list \<Rightarrow> 'a list \<Rightarrow> rng \<Rightarrow> 'a list \<times> rng" where
  "shuffle_from [] xs g = (xs, g)"
| "shuffle_from (i # is) xs g =
     (case rand g of (r, g') \<Rightarrow> shuffle_from is (iter_swap i (r mod (i + 1)) xs) g')"

definition random_shuffle :: "'a list \<Rightarrow> rng \<Rightarrow> 'a list \<times> rng" where
  "random_shuffle xs g = shuffle_from [1..<length xs] xs g"

section \<open>Downsample\<close>

text \<open>
  Modelled from the spec: \<open>TemplateList::countValues<QString>(key, excludeFailures)\<close> is
  declared outside \<open>independent.cpp\<close>. It counts, per label, the templates carrying that
  label; with \<open>excludeFailures\<close> only the eligible ones (not flagged \<open>FTE\<close>) are counted.
  The result is a \<open>QMap\<close>: its keys are the labels counted at least once, in ascending
  order.
\<close>

definition countValues :: "'m TemplateList \<Rightarrow> string \<Rightarrow> bool \<Rightarrow> error + (string \<times> int) list" where
  "countValues templates key excludeFailures =
     (case File_get (filter (\<lambda>t. \<not> excludeFailures \<or> \<not> fte (tfile t)) templates) key of
        Inl e \<Rightarrow> Inl e
      | Inr ls \<Rightarrow> Inr (map (\<lambda>l. (l, int (count_list ls l))) (sort (remdups ls))))"

text \<open>Lines 29-32: the labels counted fewer than \<open>instances\<close> times are removed.\<close>

definition removeSmall :: "int \<Rightarrow> (string \<times> int) list \<Rightarrow> (string \<times> int) list" where
  "removeSmall instances counts = filter (\<lambda>(l, c). \<not> c < instances) counts"

text \<open>Lines 38-42: the selected labels.\<close>

definition selectLabels :: "int \<Rightarrow> string list \<Rightarrow> rng \<Rightarrow> string list \<times> rng" where
  "selectLabels classes uniqueLabels g =
     (if classes < int (length uniqueLabels)
      then (case random_shuffle uniqueLabels g of (sh, g') \<Rightarrow> (mid0 classes sh, g'))
      else (uniqueLabels, g))"

text \<open>Lines 47-50: the positions of the eligible templates that carry the selected label.\<close>

definition labelIndices :: "'m TemplateList \<Rightarrow> string list \<Rightarrow> string \<Rightarrow> nat list" where
  "labelIndices templates allLabels selectedLabel =
     filter (\<lambda>j. allLabels ! j = selectedLabel \<and> \<not> fte (tfile (templates ! j))) [0..<length allLabels]"

text \<open>Lines 45-56: per selected label, shuffle its positions and append the first \<open>max\<close> (here \<open>maxCount\<close>).\<close>

fun collect :: "'m TemplateList \<Rightarrow> string list \<Rightarrow> bool \<Rightarrow> int \<Rightarrow> string list \<Rightarrow> rng \<Rightarrow>
    'm TemplateList \<Rightarrow> 'm TemplateList \<times> rng" where
  "collect templates allLabels atLeastMode instances [] g downsample = (downsample, g)"
| "collect templates allLabels atLeastMode instances (selectedLabel # rest) g downsample =
     (case random_shuffle (labelIndices templates allLabels selectedLabel) g of
        (indices, g') \<Rightarrow>
          let maxCount = (if atLeastMode then int (length indices) else min (int (length indices)) instances)
          in collect templates allLabels atLeastMode instances rest g'
               (downsample @ map (\<lambda>j. templates ! (indices ! j)) [0..<nat maxCount]))"

text \<open>
  Lines 58-61: the final subsample. The product \<open>downsample.size() * fraction\<close> is computed
  in \<open>float\<close> arithmetic (the size converted to \<open>float\<close>, the product rounded to a \<open>float\<close>);
  that operation is the parameter \<open>fmul\<close>, so that nothing is assumed of its rounding.
\<close>

definition subsample :: "(int \<Rightarrow> real \<Rightarrow> real) \<Rightarrow> real \<Rightarrow> 'm TemplateList \<Rightarrow> rng \<Rightarrow>
    'm TemplateList" where
  "subsample fmul fraction downsample g =
     (if fraction < 1
      then (case random_shuffle downsample g of
              (sh, g') \<Rightarrow> mid0 (c_int (fmul (int (length downsample)) fraction)) sh)
      else downsample)"

text \<open>The product without rounding; the \<open>float\<close> product is this one wherever it is exact.\<close>

definition exactProduct :: "int \<Rightarrow> real \<Rightarrow> real" where
  "exactProduct n x = real_of_int n * x"

text \<open>
  Lines 23-42: the labels of all templates, and the labels selected. The first value of
  \<open>uniqueLabels\<close> (lines 24-25) is overwritten by line 34 before any use and is left
  out; the warning of lines 35-36 changes no value and is left out as well.
\<close>

definition chooseLabels :: "'m TemplateList \<Rightarrow> int \<Rightarrow> int \<Rightarrow> string \<Rightarrow> rng \<Rightarrow>
    error + (string list \<times> string list \<times> rng)" where
  "chooseLabels templates classes instances inputVariable g =
     (case File_get templates inputVariable of
        Inl e \<Rightarrow> Inl e
      | Inr allLabels \<Rightarrow>
          (case countValues templates inputVariable (instances \<noteq> INT_MAX) of
             Inl e \<Rightarrow> Inl e
           | Inr counts0 \<Rightarrow>
               let counts = (if instances \<noteq> INT_MAX \<and> classes \<noteq> INT_MAX
                             then removeSmall instances counts0 else counts0);
                   uniqueLabels = map fst counts
               in case selectLabels classes uniqueLabels g of
                    (selectedLabels, g1) \<Rightarrow> Inr (allLabels, selectedLabels, g1)))"

text \<open>
  \<open>Downsample\<close>. The property \<open>fraction\<close> is a \<open>float\<close>; it is a real number here, the value
  of the \<open>float\<close>, so NaN is outside the model. The \<open>float\<close> product of line 60 is the
  parameter \<open>fmul\<close>.
\<close>

definition Downsample :: "(int \<Rightarrow> real \<Rightarrow> real) \<Rightarrow> 'm TemplateList \<Rightarrow> int \<Rightarrow> int \<Rightarrow> real \<Rightarrow>
    string \<Rightarrow> rng \<Rightarrow> error + 'm TemplateList" where
  "Downsample fmul templates classes instances0 fraction inputVariable g =
     (if classes = INT_MAX \<and> instances0 = INT_MAX \<and> 1 \<le> fraction then Inr templates
      else
        let atLeastMode = (instances0 < 0);
            instances = c_abs instances0
        in case chooseLabels templates classes instances inputVariable g of
             Inl e \<Rightarrow> Inl e
           | Inr (allLabels, selectedLabels, g1) \<Rightarrow>
               (case collect templates allLabels atLeastMode instances selectedLabels g1 [] of
                  (downsample, g2) \<Rightarrow> Inr (subsample fmul fraction downsample g2)))"

section \<open>Downsample: the vocabulary of its properties\<close>

text \<open>A template carries label \<open>l\<close> under the key; it is eligible when it is also not flagged \<open>FTE\<close>.\<close>

definition hasLabel :: "string \<Rightarrow> string \<Rightarrow> 'm Template \<Rightarrow> bool" where
  "hasLabel key l t \<longleftrightarrow> get_label (tfile t) key = Some l"

definition eligible :: "string \<Rightarrow> string \<Rightarrow> 'm Template \<Rightarrow> bool" where
  "eligible key l t \<longleftrightarrow> get_label (tfile t) key = Some l \<and> \<not> fte (tfile t)"

definition eligibleCount :: "string \<Rightarrow> string \<Rightarrow> 'm TemplateList \<Rightarrow> int" where
  "eligibleCount key l templates = int (length (filter (eligible key l) templates))"

text \<open>Every template has a value under the key, so that \<open>File_get\<close> does not abort.\<close>

definition labelled :: "string \<Rightarrow> 'm TemplateList \<Rightarrow> bool" where
  "labelled key templates \<longleftrightarrow> list_all (\<lambda>t. get_label (tfile t) key \<noteq> None) templates"

definition lab :: "string \<Rightarrow> 'm Template \<Rightarrow> string" where
  "lab key t = the (get_label (tfile t) key)"

text \<open>
  The labels that \<open>Downsample\<close> selects, read off \<open>chooseLabels\<close> as \<open>Downsample\<close> calls it
  (with the absolute value of \<open>instances\<close>).
\<close>

definition selectedLabels :: "'m TemplateList \<Rightarrow> int \<Rightarrow> int \<Rightarrow> string \<Rightarrow> rng \<Rightarrow> string list" where
  "selectedLabels templates classes instances0 inputVariable g =
     (case chooseLabels templates classes (c_abs instances0) inputVariable g of
        Inl e \<Rightarrow> []
      | Inr (allLabels, sel, g1) \<Rightarrow> sel)"

text \<open>The value of \<open>uniqueLabels\<close> after line 34, for a collection in which every template is labelled.\<close>

definition survivors :: "'m TemplateList \<Rightarrow> int \<Rightarrow> int \<Rightarrow> string \<Rightarrow> string list" where
  "survivors ts classes inst key =
     (if inst \<noteq> INT_MAX
      then (if classes \<noteq> INT_MAX
            then filter (\<lambda>l. \<not> eligibleCount key l ts < inst)
                   (sort (remdups (map (lab key) (filter (\<lambda>t. \<not> fte (tfile t)) ts))))
            else sort (remdups (map (lab key) (filter (\<lambda>t. \<not> fte (tfile t)) ts))))
      else sort (remdups (map (lab key) ts)))"

text \<open>
  What one round of the loop of lines 45-56 appends for the selected label \<open>l\<close>: some of the
  eligible templates of \<open>l\<close>; all of them in at-least mode, at most \<open>instances\<close> otherwise.
\<close>

definition chunkOf :: "string \<Rightarrow> 'm TemplateList \<Rightarrow> bool \<Rightarrow> int \<Rightarrow> string \<Rightarrow> 'm TemplateList \<Rightarrow> bool" where
  "chunkOf key ts atLeastMode instances l chunk \<longleftrightarrow>
     mset chunk \<subseteq># mset (filter (eligible key l) ts) \<and>
     (if atLeastMode then mset chunk = mset (filter (eligible key l) ts)
      else length chunk \<le> nat instances)"

subsection \<open>Sample collections\<close>

definition sample_a1 :: "nat Template" where
  "sample_a1 = \<lparr>tfile = \<lparr>name = ''a1'', labels = [(''Label'', ''a'')], fte = False\<rparr>, mats = [1]\<rparr>"

definition sample_a2 :: "nat Template" where
  "sample_a2 = \<lparr>tfile = \<lparr>name = ''a2'', labels = [(''Label'', ''a'')], fte = False\<rparr>, mats = [2]\<rparr>"

definition sample_b1 :: "nat Template" where
  "sample_b1 = \<lparr>tfile = \<lparr>name = ''b1'', labels = [(''Label'', ''b'')], fte = False\<rparr>, mats = [3]\<rparr>"

section \<open>Transforms\<close>

text \<open>
  A \<open>Transform\<close> is a polymorphic object; the classes of \<open>independent.cpp\<close> reach it only
  through its virtual interface. The state of such an object is a value of type \<open>'u\<close>, and
  the interface is a record of functions on it: a method that mutates the object returns
  the new state. \<open>project(src, dst)\<close> writes its result into \<open>dst\<close>, which it may also read,
  so it maps the unit, \<open>src\<close> and the old \<open>dst\<close> to the new \<open>dst\<close>. \<open>store\<close> gives the bytes
  the unit appends to the stream; \<open>load\<close> consumes bytes from the stream.
\<close>

type_synonym byte = "8 word"

record ('u, 'm) Transform =
  t_trainable :: "'u \<Rightarrow> bool"
  t_train :: "'u \<Rightarrow> 'm TemplateList \<Rightarrow> 'u"
  t_project :: "'u \<Rightarrow> 'm Template \<Rightarrow> 'm Template \<Rightarrow> 'm Template"
  t_clone :: "'u \<Rightarrow> 'u"
  t_store :: "'u \<Rightarrow> byte list"
  t_load :: "'u \<Rightarrow> byte list \<Rightarrow> 'u \<times> byte list"

text \<open>
  \<open>QDataStream\<close> writes an \<open>int\<close> as four bytes, most significant first, and reads it back
  as a signed value. Reading past the end of the stream gives \<open>0\<close> and leaves nothing.
\<close>

definition put_int32 :: "int \<Rightarrow> byte list" where
  "put_int32 i =
     [word_of_int (i div 2 ^ 24), word_of_int (i div 2 ^ 16), word_of_int (i div 2 ^ 8), word_of_int i]"

definition get_int32 :: "byte list \<Rightarrow> int \<times> byte list" where
  "get_int32 stream =
     (case stream of
        b0 # b1 # b2 # b3 # rest \<Rightarrow>
          (let n = uint b0 * 2 ^ 24 + uint b1 * 2 ^ 16 + uint b2 * 2 ^ 8 + uint b3
           in (if 2 ^ 31 \<le> n then n - 2 ^ 32 else n, rest))
      | _ \<Rightarrow> (0, []))"

text \<open>The constructor \<open>Template(file, mat)\<close>: one matrix with the given file.\<close>

definition Template1 :: "File \<Rightarrow> 'm \<Rightarrow> 'm Template" where
  "Template1 f m = \<lparr>tfile = f, mats = [m]\<rparr>"

section \<open>DownsampleTrainingTransform\<close>

text \<open>The pointer \<open>transform\<close> is \<open>None\<close> when it is \<open>NULL\<close>.\<close>

record 'u DownsampleTrainingTransform =
  dt_transform :: "'u option"
  dt_classes :: int
  dt_instances :: int
  dt_fraction :: real
  dt_inputVariable :: string

definition DT_project :: "('u, 'm) Transform \<Rightarrow> 'u DownsampleTrainingTransform \<Rightarrow>
    'm Template \<Rightarrow> 'm Template \<Rightarrow> error + 'm Template" where
  "DT_project ops w src dst =
     (case dt_transform w of
        None \<Rightarrow> Inl NullDereference
      | Some u \<Rightarrow> Inr (t_project ops u src dst))"

definition DT_train :: "('u, 'm) Transform \<Rightarrow> (int \<Rightarrow> real \<Rightarrow> real) \<Rightarrow>
    'u DownsampleTrainingTransform \<Rightarrow> 'm TemplateList \<Rightarrow> rng \<Rightarrow>
    error + 'u DownsampleTrainingTransform" where
  "DT_train ops fmul w data g =
     (case dt_transform w of
        None \<Rightarrow> Inr w
      | Some u \<Rightarrow>
          if \<not> t_trainable ops u then Inr w
          else (case Downsample fmul data (dt_classes w) (dt_instances w) (dt_fraction w)
                       (dt_inputVariable w) g of
                  Inl e \<Rightarrow> Inl e
                | Inr downsampled \<Rightarrow> Inr (w\<lparr>dt_transform := Some (t_train ops u downsampled)\<rparr>)))"

section \<open>IndependentTransform\<close>

text \<open>
  The object holds the pointer \<open>transform\<close> and the list \<open>transforms\<close>. \<open>init\<close> empties the
  list and, unless the pointer is \<open>NULL\<close>, puts the pointer first in it; afterwards the list
  only grows at its end. So the pointer designates the object at index 0 of the list, and
  it is \<open>NULL\<close> exactly when the list is empty: the model keeps the list only, and
  \<open>transform->clone()\<close> clones its head. The metadata that \<open>init\<close> copies besides
  \<open>trainable\<close> (parent, file, object name) is read by no operation below and is left out.
\<close>

record 'u IndependentTransform =
  transforms :: "'u list"
  trainable :: bool

definition IT_init :: "('u, 'm) Transform \<Rightarrow> 'u option \<Rightarrow> 'u IndependentTransform \<Rightarrow>
    'u IndependentTransform" where
  "IT_init ops transform e =
     (case transform of
        None \<Rightarrow> e\<lparr>transforms := []\<rparr>
      | Some u \<Rightarrow> e\<lparr>transforms := [u], trainable := t_trainable ops u\<rparr>)"

text \<open>
  Lines 143-150, for one template: the list of columns is padded with empty columns up to
  the size of the template, then channel \<open>i\<close> goes to column \<open>i\<close>.
\<close>

definition appendColumns :: "'m Template \<Rightarrow> 'm TemplateList list \<Rightarrow> 'm TemplateList list" where
  "appendColumns t templatesList =
     fold (\<lambda>i cols. cols[i := cols ! i @ [Template1 (tfile t) (mats t ! i)]])
       [0..<length (mats t)]
       (templatesList @ replicate (length (mats t) - length templatesList) [])"

definition regroup :: "'m TemplateList \<Rightarrow> 'm TemplateList list" where
  "regroup data = fold appendColumns data []"

text \<open>
  Lines 152-153 and 185-186: clones of the prototype are appended until the list has \<open>n\<close>
  elements. Cloning through a \<open>NULL\<close> pointer is the error \<open>NullDereference\<close>.
\<close>

definition growTo :: "('u, 'm) Transform \<Rightarrow> nat \<Rightarrow> 'u list \<Rightarrow> error + 'u list" where
  "growTo ops n roster =
     (if length roster < n
      then (case roster of
              [] \<Rightarrow> Inl NullDereference
            | p # _ \<Rightarrow> Inr (roster @ replicate (n - length roster) (t_clone ops p)))
      else Inr roster)"

text \<open>
  Lines 155-158: unit \<open>i\<close> is trained on column \<open>i\<close>. The tasks run concurrently on distinct
  objects and the caller waits for all of them, so the order of the tasks does not show.
\<close>

definition trainColumns :: "('u, 'm) Transform \<Rightarrow> 'u list \<Rightarrow> 'm TemplateList list \<Rightarrow> 'u list" where
  "trainColumns ops roster templatesList =
     map (\<lambda>i. if i < length templatesList then t_train ops (roster ! i) (templatesList ! i)
              else roster ! i)
       [0..<length roster]"

definition IT_train :: "('u, 'm) Transform \<Rightarrow> 'u IndependentTransform \<Rightarrow> 'm TemplateList \<Rightarrow>
    error + 'u IndependentTransform" where
  "IT_train ops e data =
     (if \<not> trainable e then Inr e
      else
        let templatesList = regroup data
        in case growTo ops (length templatesList) (transforms e) of
             Inl x \<Rightarrow> Inl x
           | Inr roster \<Rightarrow> Inr (e\<lparr>transforms := trainColumns ops roster templatesList\<rparr>))"

text \<open>
  Lines 165-169: the loop of \<open>project\<close> over the channel indices still to do, with the
  current \<open>dst\<close> and the matrices gathered so far. \<open>i % transforms.size()\<close> on an empty list
  is a division by zero.
\<close>

fun projectLoop :: "('u, 'm) Transform \<Rightarrow> 'u list \<Rightarrow> 'm Template \<Rightarrow> nat list \<Rightarrow>
    'm Template \<Rightarrow> 'm list \<Rightarrow> error + ('m Template \<times> 'm list)" where
  "projectLoop ops roster src [] dst acc = Inr (dst, acc)"
| "projectLoop ops roster src (i # is) dst acc =
     (if length roster = 0 then Inl DivisionByZero
      else
        let dst' = t_project ops (roster ! (i mod length roster))
                     (Template1 (tfile src) (mats src ! i)) dst
        in projectLoop ops roster src is (dst'\<lparr>mats := []\<rparr>) (acc @ mats dst'))"

definition IT_project :: "('u, 'm) Transform \<Rightarrow> 'u IndependentTransform \<Rightarrow>
    'm Template \<Rightarrow> 'm Template \<Rightarrow> error + 'm Template" where
  "IT_project ops e src dst =
     (case projectLoop ops (transforms e) src [0..<length (mats src)] (dst\<lparr>tfile := tfile src\<rparr>) [] of
        Inl x \<Rightarrow> Inl x
      | Inr (dst', acc) \<Rightarrow> Inr (dst'\<lparr>mats := mats dst' @ acc\<rparr>))"

definition IT_store :: "('u, 'm) Transform \<Rightarrow> 'u IndependentTransform \<Rightarrow> byte list \<Rightarrow> byte list" where
  "IT_store ops e stream =
     fold (\<lambda>u s. s @ t_store ops u) (transforms e)
       (stream @ put_int32 (int (length (transforms e))))"

text \<open>Lines 181-189; the local \<open>size\<close> is \<open>sz\<close> here.\<close>

fun loadEach :: "('u, 'm) Transform \<Rightarrow> 'u list \<Rightarrow> byte list \<Rightarrow> 'u list \<times> byte list" where
  "loadEach ops [] stream = ([], stream)"
| "loadEach ops (u # us) stream =
     (case t_load ops u stream of
        (u', stream') \<Rightarrow>
          (case loadEach ops us stream' of (us', stream'') \<Rightarrow> (u' # us', stream'')))"

definition IT_load :: "('u, 'm) Transform \<Rightarrow> 'u IndependentTransform \<Rightarrow> byte list \<Rightarrow>
    error + ('u IndependentTransform \<times> byte list)" where
  "IT_load ops e stream =
     (case get_int32 stream of
        (sz, stream1) \<Rightarrow>
          (case growTo ops (nat sz) (transforms e) of
             Inl x \<Rightarrow> Inl x
           | Inr roster \<Rightarrow>
               (case loadEach ops (take (nat sz) roster) stream1 of
                  (loaded, stream2) \<Rightarrow>
                    Inr (e\<lparr>transforms := loaded @ drop (nat sz) roster\<rparr>, stream2))))"

text \<open>Sequences of calls on one object; \<open>project\<close> is \<open>const\<close> and leaves the object as it is.\<close>

datatype 'm IT_call = Train "'m TemplateList" | Load "byte list" | Project "'m Template" "'m Template"

fun IT_step :: "('u, 'm) Transform \<Rightarrow> 'u IndependentTransform \<Rightarrow> 'm IT_call \<Rightarrow>
    error + 'u IndependentTransform" where
  "IT_step ops e (Train data) = IT_train ops e data"
| "IT_step ops e (Load stream) =
     (case IT_load ops e stream of Inl x \<Rightarrow> Inl x | Inr (e', rest) \<Rightarrow> Inr e')"
| "IT_step ops e (Project src dst) =
     (case IT_project ops e src dst of Inl x \<Rightarrow> Inl x | Inr out \<Rightarrow> Inr e)"

fun IT_run :: "('u, 'm) Transform \<Rightarrow> 'u IndependentTransform \<Rightarrow> 'm IT_call list \<Rightarrow>
    error + 'u IndependentTransform" where
  "IT_run ops e [] = Inr e"
| "IT_run ops e (c # cs) =
     (case IT_step ops e c of Inl x \<Rightarrow> Inl x | Inr e' \<Rightarrow> IT_run ops e' cs)"

section \<open>SingletonTransform\<close>

text \<open>
  The static tables of the class, as one state. An object of the class is known by its
  \<open>description\<close>: its pointer \<open>transform\<close> is the entry of \<open>transforms\<close> under that
  description (the table \<open>st_transforms\<close> here), set by \<open>init\<close>, and entries are never
  replaced or removed. The shared unit is kept in the table, so that training it through
  one owner shows to all. \<open>st_trainCalls\<close> is a history, not a member of the class: the
  arguments of every call of a shared unit's \<open>train\<close>, in order. The mutex makes every
  operation atomic; the operations are functions on the state. The counts are C \<open>int\<close>s:
  the increment of \<open>init\<close> and the decrement of \<open>train\<close> wrap around.
\<close>

record ('u, 'm) SingletonState =
  st_transforms :: "string \<rightharpoonup> 'u"
  trainingReferenceCounts :: "string \<rightharpoonup> int"
  trainingData :: "string \<rightharpoonup> 'm TemplateList"
  st_trainCalls :: "(string \<times> 'm TemplateList) list"

text \<open>\<open>QHash::operator[]\<close> on a missing key inserts a default value (\<open>0\<close>, the empty list).\<close>

definition countOf :: "('u, 'm) SingletonState \<Rightarrow> string \<Rightarrow> int" where
  "countOf s description = (case trainingReferenceCounts s description of None \<Rightarrow> 0 | Some c \<Rightarrow> c)"

definition pendingOf :: "('u, 'm) SingletonState \<Rightarrow> string \<Rightarrow> 'm TemplateList" where
  "pendingOf s description = (case trainingData s description of None \<Rightarrow> [] | Some d \<Rightarrow> d)"

definition ST_empty :: "('u, 'm) SingletonState" where
  "ST_empty = \<lparr>st_transforms = Map.empty, trainingReferenceCounts = Map.empty,
               trainingData = Map.empty, st_trainCalls = []\<rparr>"

text \<open>\<open>init\<close>; \<open>Transform_make\<close> is the factory \<open>Transform::make\<close>, a parameter.\<close>

definition ST_init :: "(string \<Rightarrow> 'u) \<Rightarrow> string \<Rightarrow> ('u, 'm) SingletonState \<Rightarrow> ('u, 'm) SingletonState" where
  "ST_init Transform_make description s =
     (let s1 = (if st_transforms s description = None
                then s\<lparr>st_transforms := (st_transforms s)(description \<mapsto> Transform_make description),
                       trainingReferenceCounts := (trainingReferenceCounts s)(description \<mapsto> 0)\<rparr>
                else s)
      in s1\<lparr>trainingReferenceCounts :=
              (trainingReferenceCounts s1)(description \<mapsto> int32 (countOf s1 description + 1))\<rparr>)"

text \<open>
  \<open>train\<close>. An object that never ran \<open>init\<close> has no entry under its description, and its
  pointer \<open>transform\<close> was never set: calling through it is the error \<open>NullDereference\<close>.
\<close>

definition ST_train :: "('u, 'm) Transform \<Rightarrow> string \<Rightarrow> 'm TemplateList \<Rightarrow>
    ('u, 'm) SingletonState \<Rightarrow> error + ('u, 'm) SingletonState" where
  "ST_train ops description data s =
     (let pending = pendingOf s description @ data;
          remaining = int32 (countOf s description - 1);
          s1 = s\<lparr>trainingData := (trainingData s)(description \<mapsto> pending),
                 trainingReferenceCounts := (trainingReferenceCounts s)(description \<mapsto> remaining)\<rparr>
      in if remaining > 0 then Inr s1
         else (case st_transforms s1 description of
                 None \<Rightarrow> Inl NullDereference
               | Some u \<Rightarrow>
                   Inr (s1\<lparr>st_transforms := (st_transforms s1)(description \<mapsto> t_train ops u pending),
                           st_trainCalls := st_trainCalls s1 @ [(description, pending)],
                           trainingData := (trainingData s1)(description \<mapsto> [])\<rparr>)))"

text \<open>The owners' calls of \<open>train\<close>, one after the other, each with its own contribution.\<close>

fun ST_trains :: "('u, 'm) Transform \<Rightarrow> string \<Rightarrow> 'm TemplateList list \<Rightarrow>
    ('u, 'm) SingletonState \<Rightarrow> error + ('u, 'm) SingletonState" where
  "ST_trains ops description [] s = Inr s"
| "ST_trains ops description (d # ds) s =
     (case ST_train ops description d s of
        Inl x \<Rightarrow> Inl x
      | Inr s' \<Rightarrow> ST_trains ops description ds s')"

section \<open>The vocabulary of the properties of the transforms\<close>

text \<open>\<open>n\<close> owners run \<open>init\<close> with the same description.\<close>

definition acquireAll :: "(string \<Rightarrow> 'u) \<Rightarrow> string \<Rightarrow> nat \<Rightarrow> ('u, 'm) SingletonState \<Rightarrow>
    ('u, 'm) SingletonState" where
  "acquireAll Transform_make description n s = (ST_init Transform_make description ^^ n) s"

text \<open>
  What shows of a result for one description: the count, the pending data, the history and
  the shared unit.
\<close>

definition observe :: "string \<Rightarrow> error + ('u, 'm) SingletonState \<Rightarrow>
    error + (int \<times> 'm TemplateList \<times> (string \<times> 'm TemplateList) list \<times> 'u option)" where
  "observe description r =
     (case r of
        Inl x \<Rightarrow> Inl x
      | Inr s \<Rightarrow> Inr (countOf s description, pendingOf s description, st_trainCalls s,
                    st_transforms s description))"

text \<open>The unit that \<open>init\<close> finds or makes for a description.\<close>

definition unitFor :: "(string \<Rightarrow> 'u) \<Rightarrow> string \<Rightarrow> ('u, 'm) SingletonState \<Rightarrow> 'u" where
  "unitFor Transform_make description s =
     (case st_transforms s description of None \<Rightarrow> Transform_make description | Some v \<Rightarrow> v)"

text \<open>Two units behave identically under \<open>project\<close>.\<close>

definition sameProjection :: "('u, 'm) Transform \<Rightarrow> 'u \<Rightarrow> 'u \<Rightarrow> bool" where
  "sameProjection ops v u \<longleftrightarrow> (\<forall>src dst. t_project ops v src dst = t_project ops u src dst)"

text \<open>
  The contract of \<open>store\<close> and \<open>load\<close> of the units, for the units \<open>us\<close> that are stored
  and the units \<open>targets\<close> they are loaded into: loading consumes exactly the bytes that
  were stored and gives a unit that behaves as the stored one.
\<close>

definition loadsBack :: "('u, 'm) Transform \<Rightarrow> 'u list \<Rightarrow> 'u list \<Rightarrow> bool" where
  "loadsBack ops targets us \<longleftrightarrow>
     (\<forall>u \<in> set us. \<forall>u' \<in> set targets. \<forall>rest.
        snd (t_load ops u' (t_store ops u @ rest)) = rest \<and>
        sameProjection ops (fst (t_load ops u' (t_store ops u @ rest))) u)"




section \<open>Sample units\<close>

text \<open>
  A unit whose state is a number: training adds the size of the batch, projecting adds the
  number to every channel of the source and stores the result in \<open>dst\<close>, keeping the file
  of \<open>dst\<close>; it is stored as one byte.
\<close>

definition addUnit :: "(nat, nat) Transform" where
  "addUnit = \<lparr>t_trainable = (\<lambda>u. True),
              t_train = (\<lambda>u data. u + length data),
              t_project = (\<lambda>u src dst. dst\<lparr>mats := map (\<lambda>m. m + u) (mats src)\<rparr>),
              t_clone = (\<lambda>u. u),
              t_store = (\<lambda>u. [of_nat u]),
              t_load = (\<lambda>u stream. case stream of [] \<Rightarrow> (0, []) | b # rest \<Rightarrow> (unat b, rest))\<rparr>"

text \<open>The same unit, not trainable.\<close>

definition fixedUnit :: "(nat, nat) Transform" where
  "fixedUnit = addUnit\<lparr>t_trainable := (\<lambda>u. False)\<rparr>"

text \<open>
  A unit whose \<open>project\<close> overwrites \<open>dst\<close> as a whole: the result is made from the source
  alone, with the file of the source.
\<close>

definition overwritingUnit :: "(nat, nat) Transform" where
  "overwritingUnit = addUnit\<lparr>t_project := (\<lambda>u src dst.
      \<lparr>tfile = tfile src, mats = map (\<lambda>m. m + u) (mats src)\<rparr>)\<rparr>"

text \<open>A unit whose \<open>project\<close> renames the file of \<open>dst\<close> and yields two channels per source channel.\<close>

definition renamingUnit :: "(nat, nat) Transform" where
  "renamingUnit = addUnit\<lparr>t_project := (\<lambda>u src dst.
      \<lparr>tfile = (tfile dst)\<lparr>name := ''renamed''\<rparr>, mats = mats src @ mats src\<rparr>)\<rparr>"

definition sample_two :: "nat Template" where
  "sample_two = \<lparr>tfile = \<lparr>name = ''two'', labels = [(''Label'', ''a'')], fte = False\<rparr>, mats = [10, 20]\<rparr>"

definition sample_three :: "nat Template" where
  "sample_three = \<lparr>tfile = \<lparr>name = ''three'', labels = [], fte = False\<rparr>, mats = [10, 20, 30]\<rparr>"

definition sample_none :: "nat Template" where
  "sample_none = \<lparr>tfile = \<lparr>name = ''none'', labels = [], fte = False\<rparr>, mats = []\<rparr>"

definition blank :: "nat Template" where
  "blank = \<lparr>tfile = \<lparr>name = [], labels = [], fte = False\<rparr>, mats = []\<rparr>"

subsection \<open>Sample objects\<close>

definition wrapper0 :: "nat DownsampleTrainingTransform" where
  "wrapper0 = \<lparr>dt_transform = None, dt_classes = INT_MAX, dt_instances = INT_MAX,
                dt_fraction = 1, dt_inputVariable = ''Label''\<rparr>"

definition ensemble0 :: "nat IndependentTransform" where
  "ensemble0 = \<lparr>transforms = [], trainable = True\<rparr>"

definition ensemble2 :: "nat IndependentTransform" where
  "ensemble2 = \<lparr>transforms = [1, 2], trainable = True\<rparr>"

text \<open>The state after one owner of \<open>X\<close> ran \<open>init\<close> and trained with one template.\<close>

definition trainedOnce :: "(nat, nat) SingletonState" where
  "trainedOnce = \<lparr>st_transforms = [''X'' \<mapsto> 1], trainingReferenceCounts = [''X'' \<mapsto> 0],
                   trainingData = [''X'' \<mapsto> []], st_trainCalls = [(''X'', [sample_a1])]\<rparr>"

section \<open>Shuffles and slices\<close>

text \<open>A shuffle permutes its list, whatever the random source.\<close>

lemma length_iter_swap: "length (iter_swap i j xs) = length xs"
  by (simp add: iter_swap_def)

lemma mset_iter_swap: "i < length xs \<Longrightarrow> j < length xs \<Longrightarrow> mset (iter_swap i j xs) = mset xs"
  unfolding iter_swap_def by (simp add: mset_swap)

lemma shuffle_from_mset:
  "\<forall>i\<in>set is. i < length xs \<Longrightarrow> mset (fst (shuffle_from is xs g)) = mset xs"
proof (induction "is" arbitrary: xs g)
  case Nil
  then show ?case by simp
next
  case (Cons i "is")
  obtain r g' where rg: "rand g = (r, g')" by (cases "rand g")
  have i: "i < length xs" using Cons.prems by simp
  have j: "r mod (i + 1) < length xs"
  proof -
    have "r mod (i + 1) < i + 1" by simp
    then show ?thesis using i by linarith
  qed
  have "mset (fst (shuffle_from is (iter_swap i (r mod (i + 1)) xs) g')) = mset (iter_swap i (r mod (i + 1)) xs)"
    using Cons.prems by (intro Cons.IH) (simp add: length_iter_swap)
  then show ?case using rg i j by (simp add: mset_iter_swap)
qed

lemma random_shuffle_mset: "mset (fst (random_shuffle xs g)) = mset xs"
  unfolding random_shuffle_def by (rule shuffle_from_mset) simp

lemma random_shuffle_length: "length (fst (random_shuffle xs g)) = length xs"
  using random_shuffle_mset [of xs g] by (metis size_mset)

lemma random_shuffle_set: "set (fst (random_shuffle xs g)) = set xs"
  using random_shuffle_mset [of xs g] by (metis set_mset_mset)

lemma random_shuffle_distinct: "distinct (fst (random_shuffle xs g)) = distinct xs"
  using random_shuffle_mset [of xs g] by (metis mset_eq_imp_distinct_iff)

lemma mset_mid0: "mset (mid0 n xs) \<subseteq># mset xs"
proof -
  have "mset (take k xs) \<subseteq># mset xs" for k
    by (metis append_take_drop_id mset_append mset_subset_eq_add_left)
  then show ?thesis by (simp add: mid0_def)
qed

lemma distinct_mid0: "distinct xs \<Longrightarrow> distinct (mid0 n xs)"
  by (simp add: mid0_def)

lemma set_mid0: "set (mid0 n xs) \<subseteq> set xs"
  by (auto simp: mid0_def dest: in_set_takeD)

section \<open>Labels and counts\<close>

lemma File_get_Inr_iff:
  "File_get ts key = Inr ls \<longleftrightarrow> labelled key ts \<and> ls = map (lab key) ts"
proof (induction ts arbitrary: ls)
  case Nil
  then show ?case by (auto simp: labelled_def)
next
  case (Cons t ts)
  show ?case
  proof (cases "get_label (tfile t) key")
    case None
    then show ?thesis by (simp add: labelled_def)
  next
    case (Some l)
    show ?thesis
    proof (cases "File_get ts key")
      case (Inl e)
      then have "\<not> labelled key ts" using Cons.IH by (metis sum.distinct(1))
      then show ?thesis using Some Inl by (simp add: labelled_def)
    next
      case (Inr ls')
      then have "labelled key ts \<and> ls' = map (lab key) ts" using Cons.IH by simp
      then show ?thesis using Some Inr by (auto simp: labelled_def lab_def)
    qed
  qed
qed

lemma labelled_filter: "labelled key ts \<Longrightarrow> labelled key (filter P ts)"
  by (simp add: labelled_def list_all_iff)

lemma count_list_lab:
  "labelled key ts \<Longrightarrow> count_list (map (lab key) ts) l = length (filter (hasLabel key l) ts)"
  by (induction ts) (auto simp: labelled_def lab_def hasLabel_def)

lemma countValues_Inr:
  assumes "labelled key ts"
  shows "countValues ts key excl =
    Inr (map (\<lambda>l. (l, int (length (filter (hasLabel key l) (filter (\<lambda>t. \<not> excl \<or> \<not> fte (tfile t)) ts)))))
          (sort (remdups (map (lab key) (filter (\<lambda>t. \<not> excl \<or> \<not> fte (tfile t)) ts)))))"
proof -
  let ?fs = "filter (\<lambda>t. \<not> excl \<or> \<not> fte (tfile t)) ts"
  have l: "labelled key ?fs" using assms by (rule labelled_filter)
  then have "File_get ?fs key = Inr (map (lab key) ?fs)" by (simp add: File_get_Inr_iff)
  then show ?thesis unfolding countValues_def using l by (simp add: count_list_lab)
qed

lemma eligible_filter_True:
  "filter (hasLabel key l) (filter (\<lambda>t. \<not> True \<or> \<not> fte (tfile t)) ts) = filter (eligible key l) ts"
  by (induction ts) (auto simp: hasLabel_def eligible_def)

lemma selectLabels_set: "set (fst (selectLabels classes u g)) \<subseteq> set u"
proof (cases "random_shuffle u g")
  case (Pair sh g')
  then have "set sh = set u" using random_shuffle_set [of u g] by simp
  then show ?thesis using Pair set_mid0 [of classes sh] by (auto simp: selectLabels_def)
qed

lemma selectLabels_distinct: "distinct u \<Longrightarrow> distinct (fst (selectLabels classes u g))"
proof (cases "random_shuffle u g")
  case (Pair sh g')
  assume d: "distinct u"
  then have "distinct sh" using Pair random_shuffle_distinct [of u g] by simp
  then show ?thesis using Pair d by (simp add: selectLabels_def distinct_mid0)
qed

lemma map_fst_removeSmall:
  "map fst (removeSmall inst (map (\<lambda>l. (l, f l)) xs)) = filter (\<lambda>l. \<not> f l < inst) xs"
  by (induction xs) (auto simp: removeSmall_def)

lemma chooseLabels_labelled:
  assumes "labelled key ts"
  shows "chooseLabels ts classes inst key g =
    (case selectLabels classes (survivors ts classes inst key) g of
       (sel, g1) \<Rightarrow> Inr (map (lab key) ts, sel, g1))"
proof -
  have fg: "File_get ts key = Inr (map (lab key) ts)"
    using assms by (simp add: File_get_Inr_iff)
  show ?thesis
  proof (cases "inst \<noteq> INT_MAX")
    case True
    have cv: "countValues ts key True =
      Inr (map (\<lambda>l. (l, eligibleCount key l ts))
            (sort (remdups (map (lab key) (filter (\<lambda>t. \<not> fte (tfile t)) ts)))))"
      using countValues_Inr [OF assms, of True] eligible_filter_True [of key _ ts]
      by (simp add: eligibleCount_def)
    show ?thesis
      using True fg cv
      by (simp add: chooseLabels_def survivors_def map_fst_removeSmall comp_def)
  next
    case False
    have cv: "countValues ts key False =
      Inr (map (\<lambda>l. (l, int (length (filter (hasLabel key l) ts)))) (sort (remdups (map (lab key) ts))))"
      using countValues_Inr [OF assms, of False] by simp
    show ?thesis
      using False fg cv
      by (simp add: chooseLabels_def survivors_def comp_def)
  qed
qed

lemma chooseLabels_Inr:
  assumes "chooseLabels ts classes inst key g = Inr (allLabels, sel, g1)"
  shows "labelled key ts" and "allLabels = map (lab key) ts"
    and "sel = fst (selectLabels classes (survivors ts classes inst key) g)"
proof -
  show l: "labelled key ts"
  proof (rule ccontr)
    assume "\<not> labelled key ts"
    then have "\<exists>e. File_get ts key = Inl e"
      using File_get_Inr_iff [of ts key] by (cases "File_get ts key") auto
    then show False using assms by (auto simp: chooseLabels_def)
  qed
  show "allLabels = map (lab key) ts" and "sel = fst (selectLabels classes (survivors ts classes inst key) g)"
    using assms chooseLabels_labelled [OF l, of classes inst g]
    by (auto split: prod.splits)
qed

lemma distinct_survivors: "distinct (survivors ts classes inst key)"
  by (simp add: survivors_def)

lemma survivors_count:
  "inst \<noteq> INT_MAX \<Longrightarrow> classes \<noteq> INT_MAX \<Longrightarrow> l \<in> set (survivors ts classes inst key) \<Longrightarrow>
   \<not> eligibleCount key l ts < inst"
  by (simp add: survivors_def)

section \<open>The per-label loop\<close>

lemma labelIndices_lab:
  assumes "labelled key ts"
  shows "map ((!) ts) (labelIndices ts (map (lab key) ts) l) = filter (eligible key l) ts"
proof -
  have eq: "\<And>j. j < length ts \<Longrightarrow>
      (lab key (ts ! j) = l \<and> \<not> fte (tfile (ts ! j))) = eligible key l (ts ! j)"
  proof -
    fix j assume j: "j < length ts"
    then have "get_label (tfile (ts ! j)) key \<noteq> None"
      using assms by (simp add: labelled_def list_all_length)
    then show "(lab key (ts ! j) = l \<and> \<not> fte (tfile (ts ! j))) = eligible key l (ts ! j)"
      by (auto simp: lab_def eligible_def)
  qed
  have "labelIndices ts (map (lab key) ts) l = filter (\<lambda>j. eligible key l (ts ! j)) [0..<length ts]"
    unfolding labelIndices_def by (rule filter_cong) (simp_all add: eq)
  then have "map ((!) ts) (labelIndices ts (map (lab key) ts) l)
      = filter (eligible key l) (map ((!) ts) [0..<length ts])"
    by (simp add: filter_map comp_def)
  then show ?thesis by (simp add: map_nth)
qed

lemma map_nth_take:
  "k \<le> length xs \<Longrightarrow> map (\<lambda>j. f (xs ! j)) [0..<k] = map f (take k xs)"
  by (rule nth_equalityI) auto

lemma chunk_step:
  assumes l: "labelled key ts"
    and sh: "random_shuffle (labelIndices ts (map (lab key) ts) l) g = (indices, g')"
  shows "chunkOf key ts am inst l
     (map (\<lambda>j. ts ! (indices ! j))
        [0..<nat (if am then int (length indices) else min (int (length indices)) inst)])"
proof -
  let ?k = "nat (if am then int (length indices) else min (int (length indices)) inst)"
  have k: "?k \<le> length indices" by (cases am) auto
  have perm: "mset indices = mset (labelIndices ts (map (lab key) ts) l)"
    using random_shuffle_mset [of "labelIndices ts (map (lab key) ts) l" g] sh by simp
  have all: "mset (map ((!) ts) indices) = mset (filter (eligible key l) ts)"
    using perm labelIndices_lab [OF l, of l] by (metis mset_map)
  have chunk: "map (\<lambda>j. ts ! (indices ! j)) [0..<?k] = map ((!) ts) (take ?k indices)"
    using k by (rule map_nth_take)
  have "mset (take ?k indices) \<subseteq># mset indices"
    by (metis append_take_drop_id mset_append mset_subset_eq_add_left)
  then have sub: "mset (map ((!) ts) (take ?k indices)) \<subseteq># mset (filter (eligible key l) ts)"
    using all by (metis image_mset_subseteq_mono mset_map)
  have full: "am \<Longrightarrow> mset (map ((!) ts) (take ?k indices)) = mset (filter (eligible key l) ts)"
    using all by simp
  have bound: "\<not> am \<Longrightarrow> length (map ((!) ts) (take ?k indices)) \<le> nat inst"
    by auto
  show ?thesis unfolding chunk chunkOf_def using sub full bound by simp
qed

lemma collect_chunks:
  assumes l: "labelled key ts"
  shows "\<exists>chunks. fst (collect ts (map (lab key) ts) am inst sel g ds) = ds @ concat chunks
            \<and> list_all2 (chunkOf key ts am inst) sel chunks"
proof (induction sel arbitrary: g ds)
  case Nil
  have "fst (collect ts (map (lab key) ts) am inst [] g ds) = ds @ concat []
      \<and> list_all2 (chunkOf key ts am inst) [] []" by simp
  then show ?case by blast
next
  case (Cons s sel)
  obtain indices g' where sh: "random_shuffle (labelIndices ts (map (lab key) ts) s) g = (indices, g')"
    by (cases "random_shuffle (labelIndices ts (map (lab key) ts) s) g")
  define chunk where "chunk = map (\<lambda>j. ts ! (indices ! j))
        [0..<nat (if am then int (length indices) else min (int (length indices)) inst)]"
  have c: "chunkOf key ts am inst s chunk"
    unfolding chunk_def using l sh by (rule chunk_step)
  obtain chunks where ch: "fst (collect ts (map (lab key) ts) am inst sel g' (ds @ chunk)) = (ds @ chunk) @ concat chunks"
      and la: "list_all2 (chunkOf key ts am inst) sel chunks"
    using Cons.IH [of g' "ds @ chunk"] by blast
  have "fst (collect ts (map (lab key) ts) am inst (s # sel) g ds) = ds @ concat (chunk # chunks)"
    using sh ch by (simp add: chunk_def Let_def)
  moreover have "list_all2 (chunkOf key ts am inst) (s # sel) (chunk # chunks)"
    using c la by simp
  ultimately show ?case by blast
qed

lemma chunk_filter:
  assumes "chunkOf key ts am inst s chunk"
  shows "filter (hasLabel key l) chunk = (if l = s then chunk else [])"
proof -
  have "\<And>t. t \<in> set chunk \<Longrightarrow> eligible key s t"
  proof -
    fix t assume "t \<in> set chunk"
    then have "t \<in># mset (filter (eligible key s) ts)"
      using assms unfolding chunkOf_def by (meson mset_subset_eqD in_multiset_in_set)
    then show "eligible key s t" by simp
  qed
  then have "\<And>t. t \<in> set chunk \<Longrightarrow> hasLabel key l t = (l = s)"
    by (auto simp: eligible_def hasLabel_def)
  then show ?thesis by (auto simp: filter_id_conv filter_empty_conv)
qed

lemma chunks_filter:
  assumes "list_all2 (chunkOf key ts am inst) sel chunks" and "distinct sel"
  shows "(l \<notin> set sel \<and> filter (hasLabel key l) (concat chunks) = []) \<or>
         (l \<in> set sel \<and> chunkOf key ts am inst l (filter (hasLabel key l) (concat chunks)))"
  using assms
proof (induction rule: list_all2_induct)
  case Nil
  then show ?case by simp
next
  case (Cons s sel chunk chunks)
  have d: "distinct sel" and ns: "s \<notin> set sel" using Cons.prems by simp_all
  note f = chunk_filter [OF Cons.hyps(1), of l]
  note ih = Cons.IH [OF d]
  show ?case
  proof (cases "l = s")
    case True
    then have "filter (hasLabel key l) (concat chunks) = []" using ih ns by blast
    then show ?thesis using True f Cons.hyps(1) by simp
  next
    case False
    then show ?thesis using f ih by simp
  qed
qed

lemma mset_subsample: "mset (subsample fmul fr ds g) \<subseteq># mset ds"
proof (cases "random_shuffle ds g")
  case (Pair sh g')
  then have "mset sh = mset ds" using random_shuffle_mset [of ds g] by simp
  then show ?thesis using Pair mset_mid0 [of "c_int (fmul (int (length ds)) fr)" sh]
    by (simp add: subsample_def)
qed

lemma filter_mset_length_le:
  "mset xs \<subseteq># mset ys \<Longrightarrow> length (filter P xs) \<le> length (filter P ys)"
proof -
  assume "mset xs \<subseteq># mset ys"
  then have "filter_mset P (mset xs) \<subseteq># filter_mset P (mset ys)"
    by (rule multiset_filter_mono)
  then have "size (filter_mset P (mset xs)) \<le> size (filter_mset P (mset ys))"
    by (rule size_mset_mono)
  then show ?thesis by (simp only: mset_filter [symmetric] size_mset)
qed

section \<open>Downsample: the fast path\<close>

text \<open>
  C4. Called with \<open>classes = INT_MAX\<close>, \<open>instances = INT_MAX\<close> and \<open>fraction \<ge> 1\<close>,
  \<open>Downsample\<close> returns its input collection unchanged, in content and in order, whatever
  the label key and the random source.
\<close>

theorem Downsample_identity:
  "1 \<le> fraction \<Longrightarrow> Downsample fmul templates INT_MAX INT_MAX fraction inputVariable g = Inr templates"
  by (simp add: Downsample_def)

theorem Downsample_identity_witness:
  "(1::real) \<le> 1 \<and>
   Downsample exactProduct [\<lparr>tfile = \<lparr>name = ''x'', labels = [], fte = True\<rparr>, mats = [1::nat, 2]\<rparr>]
     INT_MAX INT_MAX 1 ''Label'' (\<lambda>n. n)
   = Inr [\<lparr>tfile = \<lparr>name = ''x'', labels = [], fte = True\<rparr>, mats = [1::nat, 2]\<rparr>]"
  using Downsample_identity [where fraction = 1 and fmul = exactProduct
      and templates = "[\<lparr>tfile = \<lparr>name = ''x'', labels = [], fte = True\<rparr>, mats = [1::nat, 2]\<rparr>]"
      and inputVariable = "''Label''" and g = "\<lambda>n. n"]
  by simp

section \<open>Downsample: what the output holds\<close>

text \<open>On a collection in which every template is labelled, \<open>Downsample\<close> returns a collection.\<close>

lemma Downsample_returns:
  assumes "labelled key ts"
  shows "\<exists>out. Downsample fmul ts classes inst0 fr key g = Inr out"
  using chooseLabels_labelled [OF assms, of classes "c_abs inst0" g]
  by (auto simp: Downsample_def Let_def split: prod.splits)

text \<open>Beyond the fast path the output is a subsample of the chunks of the selected labels.\<close>

lemma Downsample_slow:
  assumes D: "Downsample fmul ts classes inst0 fr key g = Inr out"
    and slow: "\<not> (classes = INT_MAX \<and> inst0 = INT_MAX \<and> 1 \<le> fr)"
  shows "\<exists>chunks g2. labelled key ts
      \<and> list_all2 (chunkOf key ts (inst0 < 0) (c_abs inst0)) (selectedLabels ts classes inst0 key g) chunks
      \<and> distinct (selectedLabels ts classes inst0 key g)
      \<and> set (selectedLabels ts classes inst0 key g) \<subseteq> set (survivors ts classes (c_abs inst0) key)
      \<and> out = subsample fmul fr (concat chunks) g2"
proof (cases "chooseLabels ts classes (c_abs inst0) key g")
  case (Inl e)
  then show ?thesis using D slow by (simp add: Downsample_def)
next
  case (Inr r)
  obtain allLabels sel g1 where r: "r = (allLabels, sel, g1)" by (cases r)
  note ch = Inr [unfolded r]
  note facts = chooseLabels_Inr [OF ch]
  have sel: "selectedLabels ts classes inst0 key g = sel" by (simp add: selectedLabels_def ch)
  obtain ds g2 where c: "collect ts allLabels (inst0 < 0) (c_abs inst0) sel g1 [] = (ds, g2)"
    by (cases "collect ts allLabels (inst0 < 0) (c_abs inst0) sel g1 []")
  have out: "out = subsample fmul fr ds g2" using D slow ch c by (simp add: Downsample_def)
  obtain chunks where "fst (collect ts (map (lab key) ts) (inst0 < 0) (c_abs inst0) sel g1 []) = [] @ concat chunks"
      and la: "list_all2 (chunkOf key ts (inst0 < 0) (c_abs inst0)) sel chunks"
    using collect_chunks [OF facts(1), of "inst0 < 0" "c_abs inst0" sel g1 "[]"] by blast
  then have ds: "ds = concat chunks" using c facts(2) by simp
  have "distinct sel" unfolding facts(3) by (rule selectLabels_distinct) (rule distinct_survivors)
  moreover have "set sel \<subseteq> set (survivors ts classes (c_abs inst0) key)"
    unfolding facts(3) by (rule selectLabels_set)
  ultimately show ?thesis using facts(1) la out ds sel by blast
qed

text \<open>The equations that evaluate \<open>Downsample\<close> on the sample collections.\<close>

lemmas Downsample_eval = exactProduct_def Downsample_def chooseLabels_def countValues_def removeSmall_def
  selectLabels_def labelIndices_def subsample_def random_shuffle_def rand_def iter_swap_def
  mid0_def c_int_def c_abs_def INT_MAX_def INT_MIN_def get_label_def selectedLabels_def
  eligibleCount_def eligible_def hasLabel_def sample_a1_def sample_a2_def sample_b1_def

text \<open>
  C2, as the code has it. When the per-class bound is finite (the absolute value of
  \<open>instances\<close> is not \<open>INT_MAX\<close>) and \<open>classes\<close> is finite as well (not \<open>INT_MAX\<close>), a label
  whose eligible count is below the bound is not selected, and no template of that label
  is in the output.
\<close>

theorem Downsample_small_labels_discarded:
  assumes "Downsample fmul ts classes inst0 fr key g = Inr out"
    and "classes \<noteq> INT_MAX" and "c_abs inst0 \<noteq> INT_MAX"
    and "eligibleCount key l ts < c_abs inst0"
  shows "l \<notin> set (selectedLabels ts classes inst0 key g) \<and> filter (hasLabel key l) out = []"
proof -
  obtain chunks g2 where la: "list_all2 (chunkOf key ts (inst0 < 0) (c_abs inst0)) (selectedLabels ts classes inst0 key g) chunks"
    and d: "distinct (selectedLabels ts classes inst0 key g)"
    and sub: "set (selectedLabels ts classes inst0 key g) \<subseteq> set (survivors ts classes (c_abs inst0) key)"
    and out: "out = subsample fmul fr (concat chunks) g2"
    using Downsample_slow [OF assms(1)] assms(2) by blast
  have "l \<notin> set (survivors ts classes (c_abs inst0) key)"
    using survivors_count [OF assms(3) assms(2)] assms(4) by blast
  then have n: "l \<notin> set (selectedLabels ts classes inst0 key g)" using sub by blast
  then have "filter (hasLabel key l) (concat chunks) = []"
    using chunks_filter [OF la d, of l] by blast
  then have "length (filter (hasLabel key l) out) \<le> 0"
    using filter_mset_length_le [OF mset_subsample, of "hasLabel key l" fmul fr "concat chunks" g2] out
    by simp
  then show ?thesis using n by simp
qed

theorem Downsample_small_labels_discarded_witness:
  "Downsample exactProduct [sample_a1, sample_a2, sample_b1] 5 2 1 ''Label'' (\<lambda>n. 0) = Inr [sample_a2, sample_a1] \<and>
   (5::int) \<noteq> INT_MAX \<and> c_abs 2 \<noteq> INT_MAX \<and>
   eligibleCount ''Label'' ''b'' [sample_a1, sample_a2, sample_b1] < c_abs 2 \<and>
   ''b'' \<notin> set (selectedLabels [sample_a1, sample_a2, sample_b1] 5 2 ''Label'' (\<lambda>n. 0)) \<and>
   filter (hasLabel ''Label'' ''b'') [sample_a2, sample_a1] = []"
proof -
  have d: "Downsample exactProduct [sample_a1, sample_a2, sample_b1] 5 2 1 ''Label'' (\<lambda>n. 0) = Inr [sample_a2, sample_a1]"
    by (simp add: Downsample_eval upt_conv_Cons)
  have c: "(5::int) \<noteq> INT_MAX" by (simp add: INT_MAX_def)
  have i: "c_abs 2 \<noteq> INT_MAX" by (simp add: c_abs_def INT_MAX_def INT_MIN_def)
  have e: "eligibleCount ''Label'' ''b'' [sample_a1, sample_a2, sample_b1] < c_abs 2"
    by (simp add: Downsample_eval)
  show ?thesis using d c i e Downsample_small_labels_discarded [OF d c i e] by simp
qed

text \<open>
  C2 as stated fails: with \<open>classes = INT_MAX\<close> the removal of lines 29-32 is skipped. The
  bound 3 is finite, label \<open>b\<close> has one eligible template, and that template is in the output.
\<close>

theorem Downsample_small_label_kept_counterexample:
  "c_abs 3 \<noteq> INT_MAX \<and> eligibleCount ''Label'' ''b'' [sample_b1] < c_abs 3 \<and>
   Downsample exactProduct [sample_b1] INT_MAX 3 1 ''Label'' (\<lambda>n. 0) = Inr [sample_b1] \<and>
   hasLabel ''Label'' ''b'' sample_b1"
  by (simp add: Downsample_eval)

text \<open>
  With \<open>classes = INT_MAX\<close> and a finite bound, no label is discarded for its count: every
  label with an eligible template is selected.
\<close>

lemma selectedLabels_unbounded_classes:
  assumes l: "labelled key ts" and n: "int (length ts) \<le> INT_MAX"
    and b: "c_abs inst0 \<noteq> INT_MAX" and e: "0 < eligibleCount key l ts"
  shows "l \<in> set (selectedLabels ts INT_MAX inst0 key g)"
proof -
  let ?u = "survivors ts INT_MAX (c_abs inst0) key"
  have u: "?u = sort (remdups (map (lab key) (filter (\<lambda>t. \<not> fte (tfile t)) ts)))"
    using b by (simp add: survivors_def)
  have a: "length (remdups (map (lab key) (filter (\<lambda>t. \<not> fte (tfile t)) ts)))
      \<le> length (filter (\<lambda>t. \<not> fte (tfile t)) ts)"
    using length_remdups_leq [of "map (lab key) (filter (\<lambda>t. \<not> fte (tfile t)) ts)"]
    by (simp only: length_map)
  have "length ?u \<le> length ts"
    unfolding u using le_trans [OF a length_filter_le] by simp
  then have "\<not> INT_MAX < int (length ?u)" using n by linarith
  then have sel: "selectLabels INT_MAX ?u g = (?u, g)" by (simp add: selectLabels_def)
  have s: "selectedLabels ts INT_MAX inst0 key g = ?u"
    using chooseLabels_labelled [OF l, of INT_MAX "c_abs inst0" g] sel
    by (simp add: selectedLabels_def)
  have "filter (eligible key l) ts \<noteq> []" using e by (auto simp: eligibleCount_def)
  then obtain t where t: "t \<in> set ts" "eligible key l t"
    by (metis filter_False)
  then have "\<not> fte (tfile t)" and "lab key t = l" by (simp_all add: eligible_def lab_def)
  then have "l \<in> set ?u" unfolding u using t(1) by auto
  then show ?thesis using s by simp
qed

text \<open>
  C5, as the code has it. For every label \<open>l\<close>: in bounded mode (\<open>instances \<ge> 0\<close>) the output
  holds at most \<open>instances\<close> templates of label \<open>l\<close> (the input, a \<open>QList\<close>, has at most
  \<open>INT_MAX\<close> elements); in at-least mode (\<open>instances < 0\<close>) with \<open>fraction \<ge> 1\<close> the templates
  of a selected label \<open>l\<close> in the output are exactly the eligible templates of \<open>l\<close> in the
  input, each as often as it occurs there.
\<close>

theorem Downsample_per_label:
  assumes D: "Downsample fmul ts classes inst0 fr key g = Inr out"
  shows "(0 \<le> inst0 \<and> int (length ts) \<le> INT_MAX \<longrightarrow>
            int (length (filter (hasLabel key l) out)) \<le> inst0) \<and>
         (inst0 < 0 \<and> 1 \<le> fr \<and> l \<in> set (selectedLabels ts classes inst0 key g) \<longrightarrow>
            mset (filter (hasLabel key l) out) = mset (filter (eligible key l) ts))"
proof (cases "classes = INT_MAX \<and> inst0 = INT_MAX \<and> 1 \<le> fr")
  case True
  then have out: "out = ts" using D by (simp add: Downsample_def)
  have "int (length (filter (hasLabel key l) ts)) \<le> int (length ts)" by simp
  moreover have "inst0 = INT_MAX" using True by simp
  ultimately have "int (length ts) \<le> INT_MAX \<Longrightarrow> int (length (filter (hasLabel key l) out)) \<le> inst0"
    unfolding out by (simp only:)
  moreover have "\<not> inst0 < 0" using True by (simp add: INT_MAX_def)
  ultimately show ?thesis by blast
next
  case False
  obtain chunks g2 where la: "list_all2 (chunkOf key ts (inst0 < 0) (c_abs inst0)) (selectedLabels ts classes inst0 key g) chunks"
    and d: "distinct (selectedLabels ts classes inst0 key g)"
    and out: "out = subsample fmul fr (concat chunks) g2"
    using Downsample_slow [OF D False] by blast
  note cf = chunks_filter [OF la d, of l]
  have bounded: "int (length (filter (hasLabel key l) out)) \<le> inst0" if b: "0 \<le> inst0"
  proof -
    have abs: "c_abs inst0 = inst0" using b by (simp add: c_abs_def INT_MIN_def)
    have "length (filter (hasLabel key l) (concat chunks)) \<le> nat inst0"
      using cf b abs by (auto simp: chunkOf_def)
    moreover have "length (filter (hasLabel key l) out) \<le> length (filter (hasLabel key l) (concat chunks))"
      unfolding out by (rule filter_mset_length_le) (rule mset_subsample)
    ultimately show ?thesis using b by linarith
  qed
  have atleast: "mset (filter (hasLabel key l) out) = mset (filter (eligible key l) ts)"
    if a: "inst0 < 0" and f: "1 \<le> fr" and s: "l \<in> set (selectedLabels ts classes inst0 key g)"
  proof -
    have "out = concat chunks" using out f by (simp add: subsample_def)
    then show ?thesis using cf a s by (auto simp: chunkOf_def)
  qed
  show ?thesis using bounded atleast by blast
qed

theorem Downsample_per_label_witness:
  "Downsample exactProduct [sample_a1, sample_a2, sample_b1] 5 1 1 ''Label'' (\<lambda>n. 0) = Inr [sample_a2, sample_b1] \<and>
   (0::int) \<le> 1 \<and> int (length [sample_a1, sample_a2, sample_b1]) \<le> INT_MAX \<and>
   int (length (filter (hasLabel ''Label'' ''a'') [sample_a2, sample_b1])) \<le> 1 \<and>
   Downsample exactProduct [sample_a1, sample_a2, sample_b1] INT_MAX (- 2) 1 ''Label'' (\<lambda>n. 0)
     = Inr [sample_a2, sample_a1, sample_b1] \<and>
   (- 2::int) < 0 \<and> (1::real) \<le> 1 \<and>
   ''a'' \<in> set (selectedLabels [sample_a1, sample_a2, sample_b1] INT_MAX (- 2) ''Label'' (\<lambda>n. 0)) \<and>
   mset (filter (hasLabel ''Label'' ''a'') [sample_a2, sample_a1, sample_b1])
     = mset (filter (eligible ''Label'' ''a'') [sample_a1, sample_a2, sample_b1])"
proof -
  have d1: "Downsample exactProduct [sample_a1, sample_a2, sample_b1] 5 1 1 ''Label'' (\<lambda>n. 0) = Inr [sample_a2, sample_b1]"
    by (simp add: Downsample_eval upt_conv_Cons)
  have n: "int (length [sample_a1, sample_a2, sample_b1]) \<le> INT_MAX" by (simp add: INT_MAX_def)
  have d2: "Downsample exactProduct [sample_a1, sample_a2, sample_b1] INT_MAX (- 2) 1 ''Label'' (\<lambda>n. 0)
     = Inr [sample_a2, sample_a1, sample_b1]"
    by (simp add: Downsample_eval upt_conv_Cons)
  have s: "''a'' \<in> set (selectedLabels [sample_a1, sample_a2, sample_b1] INT_MAX (- 2) ''Label'' (\<lambda>n. 0))"
    by (simp add: Downsample_eval)
  show ?thesis
    using d1 n d2 s Downsample_per_label [OF d1, of "''a''"] Downsample_per_label [OF d2, of "''a''"]
    by simp
qed

text \<open>
  C5 as stated fails in at-least mode when \<open>fraction < 1\<close>: label \<open>a\<close> is selected and has two
  eligible templates, and the final subsample of lines 58-61 keeps one of them. The
  \<open>float\<close> product \<open>2 * 0.5\<close> is exact.
\<close>

theorem Downsample_at_least_fraction_counterexample:
  "(- 1::int) < 0 \<and>
   selectedLabels [sample_a1, sample_a2] INT_MAX (- 1) ''Label'' (\<lambda>n. 0) = [''a''] \<and>
   filter (eligible ''Label'' ''a'') [sample_a1, sample_a2] = [sample_a1, sample_a2] \<and>
   Downsample exactProduct [sample_a1, sample_a2] INT_MAX (- 1) (1 / 2) ''Label'' (\<lambda>n. 0) = Inr [sample_a1]"
  by (simp add: Downsample_eval upt_conv_Cons)

section \<open>DownsampleTrainingTransform: a missing inner transform\<close>

text \<open>
  C10. With the pointer \<open>transform\<close> \<open>NULL\<close>, \<open>train\<close> is a no-op that returns normally,
  whereas \<open>project\<close> calls through the pointer: it reaches the error, and gives neither a
  pass-through nor a no-op.
\<close>

theorem DT_null_transform:
  "dt_transform w = None \<Longrightarrow>
     DT_train ops fmul w data g = Inr w \<and> DT_project ops w src dst = Inl NullDereference"
  by (simp add: DT_train_def DT_project_def)

theorem DT_null_transform_witness:
  "dt_transform wrapper0 = None \<and>
   DT_train addUnit exactProduct wrapper0 [sample_a1] (\<lambda>n. 0) = Inr wrapper0 \<and>
   DT_project addUnit wrapper0 sample_two blank = Inl NullDereference"
  using DT_null_transform [of wrapper0 addUnit exactProduct "[sample_a1]" "\<lambda>n. 0" sample_two blank]
  by (simp add: wrapper0_def)

section \<open>IndependentTransform: project\<close>

text \<open>The equations that evaluate the operations on the sample objects.\<close>

lemmas IT_eval = IT_project_def IT_train_def IT_load_def IT_store_def IT_init_def regroup_def
  appendColumns_def growTo_def trainColumns_def get_int32_def put_int32_def Template1_def
  addUnit_def fixedUnit_def renamingUnit_def overwritingUnit_def ensemble0_def ensemble2_def
  sample_two_def sample_three_def sample_none_def blank_def upt_conv_Cons Let_def

lemma projectLoop_returns:
  "roster \<noteq> [] \<Longrightarrow> \<exists>r. projectLoop ops roster src is dst acc = Inr r"
  by (induction "is" arbitrary: dst acc) (simp_all add: Let_def)

text \<open>
  C9, as the code has it. \<open>project\<close> has no check of its own. On an empty list of units, a
  source with at least one channel runs into the division by zero of \<open>i % 0\<close>; a source with
  no channel skips the loop and returns normally, \<open>dst\<close> with the file of the source. On a
  list of at least one unit, \<open>project\<close> returns a result: no modulus is by zero.
\<close>

theorem IT_project_roster:
  "(transforms e = [] \<and> mats src \<noteq> [] \<longrightarrow> IT_project ops e src dst = Inl DivisionByZero) \<and>
   (transforms e = [] \<and> mats src = [] \<longrightarrow> IT_project ops e src dst = Inr (dst\<lparr>tfile := tfile src\<rparr>)) \<and>
   (transforms e \<noteq> [] \<longrightarrow> (\<exists>out. IT_project ops e src dst = Inr out))"
proof -
  have a: "IT_project ops e src dst = Inl DivisionByZero" if "transforms e = []" "mats src \<noteq> []"
  proof -
    have "[0..<length (mats src)] = 0 # [1..<length (mats src)]"
      using that(2) by (simp add: upt_conv_Cons)
    then show ?thesis using that(1) by (simp add: IT_project_def)
  qed
  have b: "IT_project ops e src dst = Inr (dst\<lparr>tfile := tfile src\<rparr>)" if "mats src = []"
    using that by (simp add: IT_project_def)
  have c: "\<exists>out. IT_project ops e src dst = Inr out" if ne: "transforms e \<noteq> []"
  proof -
    obtain r where "projectLoop ops (transforms e) src [0..<length (mats src)] (dst\<lparr>tfile := tfile src\<rparr>) [] = Inr r"
      using projectLoop_returns [OF ne] by blast
    then show ?thesis by (cases r) (simp add: IT_project_def)
  qed
  show ?thesis using a b c by blast
qed

theorem IT_project_roster_witness:
  "transforms ensemble0 = [] \<and> mats sample_two \<noteq> [] \<and>
   IT_project addUnit ensemble0 sample_two blank = Inl DivisionByZero \<and>
   mats sample_none = [] \<and>
   IT_project addUnit ensemble0 sample_none blank = Inr (blank\<lparr>tfile := tfile sample_none\<rparr>) \<and>
   transforms ensemble2 \<noteq> [] \<and>
   IT_project addUnit ensemble2 sample_three blank
     = Inr \<lparr>tfile = tfile sample_three, mats = [11, 22, 31]\<rparr>"
proof -
  have e: "transforms ensemble0 = []" by (simp add: ensemble0_def)
  have t: "mats sample_two \<noteq> []" by (simp add: sample_two_def)
  have n: "mats sample_none = []" by (simp add: sample_none_def)
  have r: "transforms ensemble2 \<noteq> []" by (simp add: ensemble2_def)
  have p: "IT_project addUnit ensemble2 sample_three blank
     = Inr \<lparr>tfile = tfile sample_three, mats = [11, 22, 31]\<rparr>"
    by (simp add: IT_eval)
  show ?thesis
    using e t n r p IT_project_roster [of ensemble0 sample_two addUnit blank]
      IT_project_roster [of ensemble0 sample_none addUnit blank]
      IT_project_roster [of ensemble2 sample_three addUnit blank]
    by simp
qed

text \<open>
  C9 as stated fails: on an empty list of units, \<open>project\<close> of a source without channels is
  not rejected; it returns normally.
\<close>

theorem IT_project_empty_roster_counterexample:
  "transforms ensemble0 = [] \<and>
   IT_project addUnit ensemble0 sample_none blank = Inr (blank\<lparr>tfile := tfile sample_none\<rparr>)"
  by (simp add: IT_eval)






section \<open>IndependentTransform: the length of the list of units\<close>

lemma length_fold_update:
  "length (fold (\<lambda>i cols. cols[i := f i cols]) is cols0) = length cols0"
  by (induction "is" arbitrary: cols0) simp_all

lemma length_appendColumns:
  "length (appendColumns t templatesList) = max (length templatesList) (length (mats t))"
  unfolding appendColumns_def by (simp add: length_fold_update)

lemma length_fold_appendColumns:
  "length cols \<le> length (fold appendColumns data cols) \<and>
   (\<forall>t \<in> set data. length (mats t) \<le> length (fold appendColumns data cols))"
proof (induction data arbitrary: cols)
  case Nil
  then show ?case by simp
next
  case (Cons t data)
  note ih = Cons.IH [of "appendColumns t cols"]
  have "length cols \<le> length (appendColumns t cols)" "length (mats t) \<le> length (appendColumns t cols)"
    by (simp_all add: length_appendColumns)
  then show ?case using ih by (auto intro: le_trans)
qed

lemma length_regroup: "t \<in> set data \<Longrightarrow> length (mats t) \<le> length (regroup data)"
  unfolding regroup_def using length_fold_appendColumns [of "[]" data] by blast

lemma growTo_length:
  "growTo ops n roster = Inr roster' \<Longrightarrow> length roster' = max n (length roster)"
  by (auto simp: growTo_def split: if_splits list.splits)

lemma length_trainColumns: "length (trainColumns ops roster templatesList) = length roster"
  by (simp add: trainColumns_def)

lemma length_loadEach: "length (fst (loadEach ops us stream)) = length us"
proof (induction us arbitrary: stream)
  case Nil
  then show ?case by simp
next
  case (Cons u us)
  obtain u' stream' where l: "t_load ops u stream = (u', stream')" by (cases "t_load ops u stream")
  obtain us' stream'' where r: "loadEach ops us stream' = (us', stream'')"
    by (cases "loadEach ops us stream'")
  have "length us' = length us" using Cons.IH [of stream'] r by simp
  then show ?case using l r by simp
qed

lemma IT_train_roster:
  assumes "IT_train ops e data = Inr e'"
  shows "trainable e' = trainable e" and "length (transforms e) \<le> length (transforms e')"
    and "trainable e \<Longrightarrow> t \<in> set data \<Longrightarrow> length (mats t) \<le> length (transforms e')"
proof -
  have "trainable e' = trainable e \<and> length (transforms e) \<le> length (transforms e') \<and>
     (trainable e \<longrightarrow> length (regroup data) \<le> length (transforms e'))"
  proof (cases "trainable e")
    case False
    then show ?thesis using assms by (simp add: IT_train_def)
  next
    case True
    then obtain roster where g: "growTo ops (length (regroup data)) (transforms e) = Inr roster"
        and e': "e' = e\<lparr>transforms := trainColumns ops roster (regroup data)\<rparr>"
      using assms by (auto simp: IT_train_def Let_def split: sum.splits)
    show ?thesis using growTo_length [OF g] e' by (simp add: length_trainColumns)
  qed
  then show "trainable e' = trainable e" and "length (transforms e) \<le> length (transforms e')"
    and "trainable e \<Longrightarrow> t \<in> set data \<Longrightarrow> length (mats t) \<le> length (transforms e')"
    using length_regroup [of t data] by (auto intro: le_trans)
qed

lemma IT_load_roster:
  assumes "IT_load ops e stream = Inr (e', rest)"
  shows "trainable e' = trainable e" and "length (transforms e) \<le> length (transforms e')"
proof -
  obtain sz stream1 where g: "get_int32 stream = (sz, stream1)" by (cases "get_int32 stream")
  obtain roster where r: "growTo ops (nat sz) (transforms e) = Inr roster"
    using assms g by (auto simp: IT_load_def split: sum.splits)
  obtain loaded stream2 where l: "loadEach ops (take (nat sz) roster) stream1 = (loaded, stream2)"
    by (cases "loadEach ops (take (nat sz) roster) stream1")
  have e': "e' = e\<lparr>transforms := loaded @ drop (nat sz) roster\<rparr>"
    using assms g r l by (simp add: IT_load_def)
  have "length loaded = length (take (nat sz) roster)"
    using length_loadEach [of ops "take (nat sz) roster" stream1] l by simp
  then have "length (loaded @ drop (nat sz) roster) = length roster" by simp
  then show "trainable e' = trainable e" and "length (transforms e) \<le> length (transforms e')"
    using e' growTo_length [OF r] by simp_all
qed

lemma IT_step_roster:
  assumes "IT_step ops e c = Inr e'"
  shows "trainable e' = trainable e \<and> length (transforms e) \<le> length (transforms e') \<and>
     (\<forall>data t. trainable e \<and> c = Train data \<and> t \<in> set data \<longrightarrow> length (mats t) \<le> length (transforms e'))"
proof (cases c)
  case (Train data)
  then show ?thesis using assms IT_train_roster [of ops e data e'] by simp
next
  case (Load stream)
  then obtain rest where "IT_load ops e stream = Inr (e', rest)"
    using assms by (auto split: sum.splits)
  then show ?thesis using IT_load_roster [of ops e stream e' rest] Load by simp
next
  case (Project src dst)
  then have "e' = e" using assms by (auto split: sum.splits)
  then show ?thesis using Project by simp
qed

text \<open>
  C7, as the code has it. Over every sequence of calls of \<open>train\<close>, \<open>load\<close> and \<open>project\<close>
  that returns, the list of units never gets shorter; and if the object is trainable, the
  list is at least as long as the channel count of every template of every batch that
  \<open>train\<close> was called with.
\<close>

theorem IT_roster_invariant:
  assumes "IT_run ops e cs = Inr e'"
  shows "length (transforms e) \<le> length (transforms e') \<and>
     (trainable e \<longrightarrow>
        (\<forall>data t. Train data \<in> set cs \<and> t \<in> set data \<longrightarrow> length (mats t) \<le> length (transforms e')))"
  using assms
proof (induction cs arbitrary: e)
  case Nil
  then show ?case by simp
next
  case (Cons c cs)
  obtain e1 where s: "IT_step ops e c = Inr e1" and r: "IT_run ops e1 cs = Inr e'"
    using Cons.prems by (auto split: sum.splits)
  note st = IT_step_roster [OF s]
  note ih = Cons.IH [OF r]
  have mono: "length (transforms e) \<le> length (transforms e')" using st ih by linarith
  have seen: "length (mats t) \<le> length (transforms e')"
    if tr: "trainable e" and d: "Train data \<in> set (c # cs)" and t: "t \<in> set data" for data t
  proof (cases "c = Train data")
    case True
    then have "length (mats t) \<le> length (transforms e1)" using st tr t by blast
    then show ?thesis using ih by linarith
  next
    case False
    then have "Train data \<in> set cs" using d by simp
    moreover have "trainable e1" using st tr by simp
    ultimately show ?thesis using ih t by blast
  qed
  show ?case using mono seen by blast
qed

theorem IT_roster_invariant_witness:
  "IT_run addUnit (IT_init addUnit (Some 0) ensemble0)
     [Train [sample_two], Project sample_three blank, Load (put_int32 3 @ [7, 8, 9])]
     = Inr \<lparr>transforms = [7, 8, 9], trainable = True\<rparr> \<and>
   trainable (IT_init addUnit (Some 0) ensemble0) \<and>
   length (transforms (IT_init addUnit (Some 0) ensemble0)) = 1 \<and>
   length (mats sample_two) = 2 \<and>
   length (transforms \<lparr>transforms = [7 :: nat, 8, 9], trainable = True\<rparr>) = 3"
proof -
  have r: "IT_run addUnit (IT_init addUnit (Some 0) ensemble0)
     [Train [sample_two], Project sample_three blank, Load (put_int32 3 @ [7, 8, 9])]
     = Inr \<lparr>transforms = [7, 8, 9], trainable = True\<rparr>"
    by (simp add: IT_eval)
  show ?thesis using r IT_roster_invariant [OF r] by (simp add: IT_eval)
qed

text \<open>
  C7 as stated fails for an object that is not trainable: \<open>train\<close> returns at once, and the
  single unit stays alone after a batch with a template of two channels.
\<close>

theorem IT_untrainable_roster_counterexample:
  "IT_run fixedUnit (IT_init fixedUnit (Some 0) ensemble0) [Train [sample_two]]
     = Inr \<lparr>transforms = [0], trainable = False\<rparr> \<and>
   length (mats sample_two) = 2"
  by (simp add: IT_eval)

text \<open>On an object that is not trainable, \<open>train\<close> changes nothing.\<close>

lemma IT_train_untrainable: "\<not> trainable e \<Longrightarrow> IT_train ops e data = Inr e"
  by (simp add: IT_train_def)

section \<open>IndependentTransform: store and load\<close>

lemma bytes_of_int:
  fixes i :: int
  assumes "0 \<le> i" "i < 2 ^ 32"
  shows "(i div 2 ^ 24) mod 256 * 2 ^ 24 + (i div 2 ^ 16) mod 256 * 2 ^ 16 + (i div 2 ^ 8) mod 256 * 2 ^ 8 + i mod 256 = i"
proof -
  define a where "a = i div 256"
  define b where "b = a div 256"
  define c where "c = b div 256"
  have i: "i = a * 256 + i mod 256" unfolding a_def by simp
  have a: "a = b * 256 + a mod 256" unfolding b_def by simp
  have b: "b = c * 256 + b mod 256" unfolding c_def by simp
  have e8: "i div 2 ^ 8 = a" by (simp add: a_def)
  have e16: "i div 2 ^ 16 = b" by (simp add: a_def b_def zdiv_zmult2_eq)
  have e24: "i div 2 ^ 24 = c" by (simp add: a_def b_def c_def zdiv_zmult2_eq)
  have "0 \<le> c" using assms(1) by (simp add: a_def b_def c_def pos_imp_zdiv_nonneg_iff)
  moreover have "c < 256" using assms(2) unfolding e24 [symmetric] by simp
  ultimately have c: "c mod 256 = c" by simp
  show ?thesis unfolding e8 e16 e24 c using i a b by simp
qed

lemma uint_byte_of_int: "uint (word_of_int x :: byte) = x mod 256"
  by (simp add: uint_word_of_int take_bit_eq_mod)

lemma get_put_int32:
  assumes "0 \<le> i" "i < 2 ^ 31"
  shows "get_int32 (put_int32 i @ rest) = (i, rest)"
proof -
  have "(2::int) ^ 31 \<le> 2 ^ 32" by simp
  then have "i < 2 ^ 32" using assms(2) by (rule less_le_trans [rotated])
  then have n: "(i div 2 ^ 24) mod 256 * 2 ^ 24 + (i div 2 ^ 16) mod 256 * 2 ^ 16 + (i div 2 ^ 8) mod 256 * 2 ^ 8 + i mod 256 = i"
    using assms(1) by (rule bytes_of_int [rotated])
  have "get_int32 (put_int32 i @ rest) = (if 2 ^ 31 \<le> i then i - 2 ^ 32 else i, rest)"
    unfolding get_int32_def put_int32_def
    by (simp only: append_Cons append_Nil list.case uint_byte_of_int Let_def n)
  then show ?thesis using assms(2) by (simp only: not_le [symmetric] if_False)
qed

lemma fold_append_concat:
  "fold (\<lambda>u s. s @ f u) us s0 = s0 @ concat (map f us)"
  by (induction us arbitrary: s0) simp_all

lemma IT_store_eq:
  "IT_store ops e stream =
     stream @ put_int32 (int (length (transforms e))) @ concat (map (t_store ops) (transforms e))"
  by (simp add: IT_store_def fold_append_concat)

lemma loadEach_back:
  assumes "length targets = length us" and "loadsBack ops ts us" and "set targets \<subseteq> set ts"
  shows "\<exists>vs. loadEach ops targets (concat (map (t_store ops) us) @ rest) = (vs, rest) \<and>
            list_all2 (sameProjection ops) vs us"
  using assms
proof (induction targets us rule: list_induct2)
  case Nil
  then show ?case by simp
next
  case (Cons u' targets u us)
  let ?stream = "concat (map (t_store ops) us) @ rest"
  have u': "u' \<in> set ts" using Cons.prems(2) by simp
  have c: "snd (t_load ops u' (t_store ops u @ ?stream)) = ?stream"
      "sameProjection ops (fst (t_load ops u' (t_store ops u @ ?stream))) u"
    using Cons.prems(1) u' unfolding loadsBack_def by simp_all
  obtain v where v: "t_load ops u' (t_store ops u @ ?stream) = (v, ?stream)" "sameProjection ops v u"
    using c by (cases "t_load ops u' (t_store ops u @ ?stream)") simp
  have "loadsBack ops ts us" using Cons.prems(1) unfolding loadsBack_def by simp
  moreover have "set targets \<subseteq> set ts" using Cons.prems(2) by simp
  ultimately obtain vs where vs: "loadEach ops targets ?stream = (vs, rest)"
      "list_all2 (sameProjection ops) vs us"
    using Cons.IH by blast
  have "loadEach ops (u' # targets) (concat (map (t_store ops) (u # us)) @ rest) = (v # vs, rest)"
    using v(1) vs(1) by simp
  moreover have "list_all2 (sameProjection ops) (v # vs) (u # us)" using v(2) vs(2) by simp
  ultimately show ?case by blast
qed

lemma projectLoop_cong:
  assumes "list_all2 (sameProjection ops) r1 r2"
  shows "projectLoop ops r1 src is dst acc = projectLoop ops r2 src is dst acc"
proof (induction "is" arbitrary: dst acc)
  case Nil
  then show ?case by simp
next
  case (Cons i "is")
  have len: "length r1 = length r2" using assms by (rule list_all2_lengthD)
  show ?case
  proof (cases "length r2 = 0")
    case True
    then show ?thesis using len by simp
  next
    case False
    then have "i mod length r2 < length r2" by simp
    then have "sameProjection ops (r1 ! (i mod length r2)) (r2 ! (i mod length r2))"
      using assms by (simp add: list_all2_nthD2)
    then have "t_project ops (r1 ! (i mod length r2)) (Template1 (tfile src) (mats src ! i)) dst
        = t_project ops (r2 ! (i mod length r2)) (Template1 (tfile src) (mats src ! i)) dst"
      unfolding sameProjection_def by blast
    then show ?thesis using len False Cons.IH by (simp add: Let_def)
  qed
qed

lemma growTo_fresh:
  assumes "0 < n"
  shows "growTo ops n [p] = Inr (p # replicate (n - 1) (t_clone ops p))"
  using assms by (cases "n = 1") (simp_all add: growTo_def)

text \<open>
  C8. Let an object with at least one unit (and fewer than \<open>2^31\<close>, as its count is stored in
  an \<open>int\<close>) store itself, and let a fresh object, initialised with a prototype \<open>p\<close>, load
  the stream. If the units keep the contract of \<open>store\<close> and \<open>load\<close> (what one stores,
  the prototype and its clones load back, behaving as the stored unit), then the load
  returns, leaves what followed in the stream, and the fresh object has as many units as
  the stored one, unit by unit with the same \<open>project\<close>; so the two objects project alike.
\<close>

theorem IT_store_load_roundtrip:
  assumes ne: "transforms e \<noteq> []"
    and sz: "int (length (transforms e)) < 2 ^ 31"
    and lb: "loadsBack ops [p, t_clone ops p] (transforms e)"
  shows "\<exists>e'. IT_load ops (IT_init ops (Some p) e0) (IT_store ops e [] @ rest) = Inr (e', rest) \<and>
       length (transforms e') = length (transforms e) \<and>
       (\<forall>i<length (transforms e). sameProjection ops (transforms e' ! i) (transforms e ! i)) \<and>
       (\<forall>src dst. IT_project ops e' src dst = IT_project ops e src dst)"
proof -
  let ?n = "length (transforms e)"
  let ?payload = "concat (map (t_store ops) (transforms e)) @ rest"
  let ?targets = "p # replicate (?n - 1) (t_clone ops p)"
  have n: "0 < ?n" using ne by simp
  have stream: "IT_store ops e [] @ rest = put_int32 (int ?n) @ ?payload"
    by (simp add: IT_store_eq)
  have g: "get_int32 (IT_store ops e [] @ rest) = (int ?n, ?payload)"
    unfolding stream using sz by (intro get_put_int32) simp_all
  have fresh: "transforms (IT_init ops (Some p) e0) = [p]" by (simp add: IT_init_def)
  have grow: "growTo ops (nat (int ?n)) (transforms (IT_init ops (Some p) e0)) = Inr ?targets"
    unfolding fresh using n by (simp add: growTo_fresh)
  have len: "length ?targets = ?n" using n by simp
  have "set ?targets \<subseteq> set [p, t_clone ops p]" by auto
  with len lb obtain vs where vs: "loadEach ops ?targets ?payload = (vs, rest)"
      "list_all2 (sameProjection ops) vs (transforms e)"
    using loadEach_back [of ?targets "transforms e" ops "[p, t_clone ops p]" rest] by blast
  define e' where "e' = (IT_init ops (Some p) e0)\<lparr>transforms := vs\<rparr>"
  have tk: "take (nat (int ?n)) ?targets = ?targets" "drop (nat (int ?n)) ?targets = []"
    using len by simp_all
  have load: "IT_load ops (IT_init ops (Some p) e0) (IT_store ops e [] @ rest) = Inr (e', rest)"
    unfolding IT_load_def e'_def
    by (simp only: g grow tk vs(1) prod.case sum.case append_Nil2)
  have tr: "transforms e' = vs" by (simp add: e'_def)
  have l: "length (transforms e') = ?n" using vs(2) tr by (simp add: list_all2_lengthD)
  have same: "\<forall>i<?n. sameProjection ops (transforms e' ! i) (transforms e ! i)"
    using vs(2) tr by (simp add: list_all2_nthD2)
  have "IT_project ops e' src dst = IT_project ops e src dst" for src dst
    unfolding IT_project_def tr using projectLoop_cong [OF vs(2)] by simp
  then show ?thesis using load l same by blast
qed

theorem IT_store_load_roundtrip_witness:
  "transforms ensemble2 \<noteq> [] \<and> int (length (transforms ensemble2)) < 2 ^ 31 \<and>
   loadsBack addUnit [0, t_clone addUnit 0] (transforms ensemble2) \<and>
   IT_store addUnit ensemble2 [] = [0, 0, 0, 2, 1, 2] \<and>
   IT_load addUnit (IT_init addUnit (Some 0) ensemble0) (IT_store addUnit ensemble2 [] @ [5])
     = Inr (ensemble2, [5])"
proof -
  have r: "transforms ensemble2 \<noteq> []" by (simp add: ensemble2_def)
  have n: "int (length (transforms ensemble2)) < 2 ^ 31" by (simp add: ensemble2_def)
  have c: "loadsBack addUnit [0, t_clone addUnit 0] (transforms ensemble2)"
    by (simp add: loadsBack_def sameProjection_def addUnit_def ensemble2_def)
  have s: "IT_store addUnit ensemble2 [] = [0, 0, 0, 2, 1, 2]" by (simp add: IT_eval)
  have l: "IT_load addUnit (IT_init addUnit (Some 0) ensemble0) (IT_store addUnit ensemble2 [] @ [5])
     = Inr (ensemble2, [5])"
    by (simp add: IT_eval)
  show ?thesis using r n c s l IT_store_load_roundtrip [OF r n c, of ensemble0 "[5]"] by simp
qed

section \<open>SingletonTransform: when the shared unit is trained\<close>

text \<open>The equations that evaluate the operations on the sample states.\<close>

lemmas ST_eval = observe_def acquireAll_def ST_init_def ST_train_def ST_empty_def countOf_def
  pendingOf_def trainedOnce_def unitFor_def int32_def INT_MIN_def INT_MAX_def Let_def numeral_2_eq_2

lemma int32_id: "INT_MIN \<le> i \<Longrightarrow> i \<le> INT_MAX \<Longrightarrow> int32 i = i"
proof -
  assume "INT_MIN \<le> i" and "i \<le> INT_MAX"
  then have "0 \<le> i + 2 ^ 31" and "i + 2 ^ 31 < 2 ^ 32"
    by (simp_all add: INT_MIN_def INT_MAX_def)
  then have "(i + 2 ^ 31) mod 2 ^ 32 = i + 2 ^ 31" by (rule mod_pos_pos_trivial)
  then show ?thesis unfolding int32_def by (simp only: add_diff_cancel_right')
qed

lemma ST_init_facts:
  "st_transforms (ST_init mk X s) X = Some (unitFor mk X s)"
  "countOf (ST_init mk X s) X = int32 ((if st_transforms s X = None then 0 else countOf s X) + 1)"
  "pendingOf (ST_init mk X s) X = pendingOf s X"
  "st_trainCalls (ST_init mk X s) = st_trainCalls s"
  by (auto simp: ST_init_def Let_def countOf_def pendingOf_def unitFor_def)

lemma unitFor_ST_init: "unitFor mk X (ST_init mk X s) = unitFor mk X s"
  by (simp add: unitFor_def ST_init_facts(1))

lemma acquireAll_Suc: "acquireAll mk X (Suc n) s = ST_init mk X (acquireAll mk X n s)"
  by (simp add: acquireAll_def)

lemma acquireAll_unit:
  "unitFor mk X (acquireAll mk X n s) = unitFor mk X s \<and>
   (0 < n \<longrightarrow> st_transforms (acquireAll mk X n s) X = Some (unitFor mk X s))"
proof (induction n)
  case 0
  then show ?case by (simp add: acquireAll_def)
next
  case (Suc n)
  then show ?case by (simp add: acquireAll_Suc ST_init_facts(1) unitFor_ST_init)
qed

lemma acquireAll_count:
  assumes "countOf s X = 0"
  shows "int n \<le> INT_MAX \<Longrightarrow> countOf (acquireAll mk X n s) X = int n"
proof (induction n)
  case 0
  then show ?case using assms by (simp add: acquireAll_def)
next
  case (Suc n)
  then have ih: "countOf (acquireAll mk X n s) X = int n" by simp
  have r: "INT_MIN \<le> int n + 1" "int n + 1 \<le> INT_MAX"
    using Suc.prems by (simp_all add: INT_MIN_def)
  have "(if st_transforms (acquireAll mk X n s) X = None then 0 else countOf (acquireAll mk X n s) X) + 1
      = int n + 1"
  proof (cases n)
    case 0
    then show ?thesis using assms by (simp add: acquireAll_def)
  next
    case (Suc m)
    then have "st_transforms (acquireAll mk X n s) X = Some (unitFor mk X s)"
      using acquireAll_unit [of mk X n s] by simp
    then show ?thesis using ih by (simp only: option.distinct if_False)
  qed
  then have "countOf (acquireAll mk X (Suc n) s) X = int32 (int n + 1)"
    by (simp only: acquireAll_Suc ST_init_facts(2))
  then show ?case using int32_id [OF r] by simp
qed

lemma acquireAll_facts:
  "pendingOf (acquireAll mk X n s) X = pendingOf s X"
  "st_trainCalls (acquireAll mk X n s) = st_trainCalls s"
  by (induction n) (simp_all add: acquireAll_Suc ST_init_facts, simp_all add: acquireAll_def)

lemma ST_train_waits:
  assumes "1 < countOf s X" and "countOf s X \<le> INT_MAX"
  shows "\<exists>s'. ST_train ops X d s = Inr s' \<and> countOf s' X = countOf s X - 1 \<and>
           pendingOf s' X = pendingOf s X @ d \<and> st_trainCalls s' = st_trainCalls s \<and>
           st_transforms s' = st_transforms s"
proof -
  have "int32 (countOf s X - 1) = countOf s X - 1"
    using assms by (intro int32_id) (simp_all add: INT_MIN_def)
  then show ?thesis using assms(1)
    by (simp add: ST_train_def Let_def) (simp add: countOf_def pendingOf_def)
qed

lemma ST_train_fires:
  assumes "countOf s X \<le> 1" and "INT_MIN < countOf s X" and "st_transforms s X = Some u"
  shows "\<exists>s'. ST_train ops X d s = Inr s' \<and> countOf s' X = countOf s X - 1 \<and>
           pendingOf s' X = [] \<and> trainingData s' X = Some [] \<and>
           st_trainCalls s' = st_trainCalls s @ [(X, pendingOf s X @ d)] \<and>
           st_transforms s' X = Some (t_train ops u (pendingOf s X @ d))"
proof -
  have "int32 (countOf s X - 1) = countOf s X - 1"
    using assms(1,2) by (intro int32_id) (simp_all add: INT_MAX_def)
  then show ?thesis using assms(1,3)
    by (simp add: ST_train_def Let_def) (simp add: countOf_def pendingOf_def)
qed

lemma ST_trains_append:
  "ST_trains ops X (xs @ ys) s =
     (case ST_trains ops X xs s of Inl x \<Rightarrow> Inl x | Inr s' \<Rightarrow> ST_trains ops X ys s')"
  by (induction xs arbitrary: s) (auto split: sum.splits)

lemma ST_trains_wait:
  assumes "int (length ds) < countOf s X" and "countOf s X \<le> INT_MAX"
  shows "\<exists>s'. ST_trains ops X ds s = Inr s' \<and> countOf s' X = countOf s X - int (length ds) \<and>
           pendingOf s' X = pendingOf s X @ concat ds \<and> st_trainCalls s' = st_trainCalls s \<and>
           st_transforms s' = st_transforms s"
  using assms
proof (induction ds arbitrary: s)
  case Nil
  then show ?case by simp
next
  case (Cons d ds)
  have "1 < countOf s X" using Cons.prems(1) by simp
  then obtain s1 where s1: "ST_train ops X d s = Inr s1" "countOf s1 X = countOf s X - 1"
      "pendingOf s1 X = pendingOf s X @ d" "st_trainCalls s1 = st_trainCalls s"
      "st_transforms s1 = st_transforms s"
    using ST_train_waits [of s X ops d] Cons.prems(2) by blast
  have "int (length ds) < countOf s1 X" and "countOf s1 X \<le> INT_MAX"
    using Cons.prems s1(2) by simp_all
  then obtain s' where s': "ST_trains ops X ds s1 = Inr s'" "countOf s' X = countOf s1 X - int (length ds)"
      "pendingOf s' X = pendingOf s1 X @ concat ds" "st_trainCalls s' = st_trainCalls s1"
      "st_transforms s' = st_transforms s1"
    using Cons.IH [of s1] by blast
  show ?case using s1 s' by simp
qed

text \<open>
  C1. Let a description have no outstanding reference and no pending data. After \<open>N \<ge> 1\<close>
  owners ran \<open>init\<close> with it (\<open>N\<close> within the range of the \<open>int\<close> count), the table holds the
  shared unit \<open>u\<close>, the one \<open>init\<close> found or made. Let each owner call \<open>train\<close> once, with
  the contributions \<open>datas\<close>. Then the first \<open>k < N\<close> calls return with no call of the shared
  unit's \<open>train\<close>: the history is as before and the unit is still \<open>u\<close>; their contributions
  are pending and the count is \<open>N - k\<close>. All \<open>N\<close> calls together make exactly one call, with the concatenation of all contributions: the history has that
  one entry more and the unit is \<open>u\<close> trained once, on the concatenation. Afterwards the
  pending data of the description is empty and its count is 0.
\<close>

theorem ST_train_once:
  assumes idle: "countOf s X = 0" "pendingOf s X = []"
    and n: "datas \<noteq> []" and b: "int (length datas) \<le> INT_MAX"
  shows "st_transforms (acquireAll mk X (length datas) s) X = Some (unitFor mk X s) \<and>
         (\<forall>k<length datas. \<exists>sk. ST_trains ops X (take k datas) (acquireAll mk X (length datas) s) = Inr sk
            \<and> st_trainCalls sk = st_trainCalls s
            \<and> st_transforms sk X = Some (unitFor mk X s)
            \<and> pendingOf sk X = concat (take k datas)
            \<and> countOf sk X = int (length datas) - int k) \<and>
         (\<exists>s'. ST_trains ops X datas (acquireAll mk X (length datas) s) = Inr s'
            \<and> st_trainCalls s' = st_trainCalls s @ [(X, concat datas)]
            \<and> st_transforms s' X = Some (t_train ops (unitFor mk X s) (concat datas))
            \<and> trainingData s' X = Some [] \<and> pendingOf s' X = [] \<and> countOf s' X = 0)"
proof -
  let ?s0 = "acquireAll mk X (length datas) s"
  let ?u = "unitFor mk X s"
  have c0: "countOf ?s0 X = int (length datas)" using acquireAll_count [OF idle(1) b] .
  note a = acquireAll_facts [where mk = mk and n = "length datas" and X = X and s = s]
  have u0: "st_transforms ?s0 X = Some ?u"
    using acquireAll_unit [of mk X "length datas" s] n by simp
  have before: "\<exists>sk. ST_trains ops X (take k datas) ?s0 = Inr sk \<and> st_trainCalls sk = st_trainCalls s
        \<and> countOf sk X = int (length datas) - int k \<and> pendingOf sk X = concat (take k datas)
        \<and> st_transforms sk X = Some ?u"
    if k: "k < length datas" for k
  proof -
    have "int (length (take k datas)) < countOf ?s0 X" and "countOf ?s0 X \<le> INT_MAX"
      using k c0 b by simp_all
    from ST_trains_wait [OF this, of ops] show ?thesis using a c0 u0 k idle(2) by auto
  qed
  obtain front d where fd: "datas = front @ [d]" using n by (metis rev_exhaust)
  then have k: "length front < length datas" and tk: "take (length front) datas = front" by simp_all
  obtain sk where sk: "ST_trains ops X front ?s0 = Inr sk" "st_trainCalls sk = st_trainCalls s"
      "countOf sk X = int (length datas) - int (length front)" "pendingOf sk X = concat front"
      "st_transforms sk X = Some ?u"
    using before [OF k] tk by auto
  have "countOf sk X \<le> 1" and "INT_MIN < countOf sk X"
    using sk(3) fd by (simp_all add: INT_MIN_def)
  from ST_train_fires [OF this sk(5), of ops d]
  obtain s' where s': "ST_train ops X d sk = Inr s'" "countOf s' X = countOf sk X - 1"
      "trainingData s' X = Some []" "pendingOf s' X = []"
      "st_trainCalls s' = st_trainCalls sk @ [(X, pendingOf sk X @ d)]"
      "st_transforms s' X = Some (t_train ops ?u (pendingOf sk X @ d))"
    by blast
  have "ST_trains ops X datas ?s0 = Inr s'"
    unfolding fd ST_trains_append using sk(1) s'(1) fd by simp
  moreover have "st_trainCalls s' = st_trainCalls s @ [(X, concat datas)]"
    using s'(5) sk(2) sk(4) fd by simp
  moreover have "st_transforms s' X = Some (t_train ops ?u (concat datas))"
    using s'(6) sk(4) fd by simp
  moreover have "countOf s' X = 0" using s'(2) sk(3) fd by simp
  ultimately have "\<exists>s'. ST_trains ops X datas ?s0 = Inr s'
            \<and> st_trainCalls s' = st_trainCalls s @ [(X, concat datas)]
            \<and> st_transforms s' X = Some (t_train ops ?u (concat datas))
            \<and> trainingData s' X = Some [] \<and> pendingOf s' X = [] \<and> countOf s' X = 0"
    using s'(3) s'(4) by blast
  moreover have "\<forall>k<length datas. \<exists>sk. ST_trains ops X (take k datas) ?s0 = Inr sk
            \<and> st_trainCalls sk = st_trainCalls s \<and> st_transforms sk X = Some ?u
            \<and> pendingOf sk X = concat (take k datas)
            \<and> countOf sk X = int (length datas) - int k"
    using before by blast
  ultimately show ?thesis using u0 by blast
qed

theorem ST_train_once_witness:
  "countOf (ST_empty :: (nat, nat) SingletonState) ''X'' = 0 \<and>
   pendingOf (ST_empty :: (nat, nat) SingletonState) ''X'' = [] \<and>
   [[sample_a1], [sample_a2]] \<noteq> [] \<and>
   int (length [[sample_a1], [sample_a2]]) \<le> INT_MAX \<and>
   unitFor (\<lambda>d. 0) ''X'' (ST_empty :: (nat, nat) SingletonState) = 0 \<and>
   observe ''X'' (ST_trains addUnit ''X'' (take 1 [[sample_a1], [sample_a2]])
       (acquireAll (\<lambda>d. 0) ''X'' (length [[sample_a1], [sample_a2]]) ST_empty))
     = Inr (1, [sample_a1], [], Some 0) \<and>
   t_train addUnit 0 (concat [[sample_a1], [sample_a2]]) = 2 \<and>
   observe ''X'' (ST_trains addUnit ''X'' [[sample_a1], [sample_a2]]
       (acquireAll (\<lambda>d. 0) ''X'' (length [[sample_a1], [sample_a2]]) ST_empty))
     = Inr (0, [], [(''X'', concat [[sample_a1], [sample_a2]])], Some 2)"
proof -
  have c: "countOf (ST_empty :: (nat, nat) SingletonState) ''X'' = 0" by (simp add: ST_eval)
  have p: "pendingOf (ST_empty :: (nat, nat) SingletonState) ''X'' = []" by (simp add: ST_eval)
  have d: "[[sample_a1], [sample_a2]] \<noteq> []" by simp
  have b: "int (length [[sample_a1], [sample_a2]]) \<le> INT_MAX" by (simp add: INT_MAX_def)
  have u: "unitFor (\<lambda>d. 0) ''X'' (ST_empty :: (nat, nat) SingletonState) = 0" by (simp add: ST_eval)
  have k: "observe ''X'' (ST_trains addUnit ''X'' (take 1 [[sample_a1], [sample_a2]])
       (acquireAll (\<lambda>d. 0) ''X'' (length [[sample_a1], [sample_a2]]) ST_empty))
     = Inr (1, [sample_a1], [], Some 0)"
    by (simp add: ST_eval)
  have t: "t_train addUnit 0 (concat [[sample_a1], [sample_a2]]) = 2" by (simp add: addUnit_def)
  have n: "observe ''X'' (ST_trains addUnit ''X'' [[sample_a1], [sample_a2]]
       (acquireAll (\<lambda>d. 0) ''X'' (length [[sample_a1], [sample_a2]]) ST_empty))
     = Inr (0, [], [(''X'', concat [[sample_a1], [sample_a2]])], Some 2)"
    by (simp add: ST_eval addUnit_def)
  note ST_train_once [OF c p d b, of "\<lambda>d. 0" addUnit]
  then show ?thesis using c p d b u k t n by blast
qed

text \<open>
  C3, as the code has it. \<open>train\<close> has no check of the count. Called for a description whose
  count is already 0 or less (more calls of \<open>train\<close> than of \<open>init\<close>; above \<open>INT_MIN\<close>, so that
  the decrement does not overflow), it returns normally, takes the count below zero, and
  calls the shared unit's \<open>train\<close> once more, with the pending data and this contribution:
  the history has that entry more and the unit is the old one trained on it. Then it
  clears the buffer.
\<close>

theorem ST_train_surplus:
  assumes "countOf s X \<le> 0" and "INT_MIN < countOf s X" and "st_transforms s X = Some u"
  shows "\<exists>s'. ST_train ops X d s = Inr s' \<and> countOf s' X = countOf s X - 1 \<and> countOf s' X < 0 \<and>
           st_trainCalls s' = st_trainCalls s @ [(X, pendingOf s X @ d)] \<and>
           st_transforms s' X = Some (t_train ops u (pendingOf s X @ d)) \<and>
           trainingData s' X = Some [] \<and> pendingOf s' X = []"
proof -
  have "countOf s X \<le> 1" using assms(1) by simp
  from ST_train_fires [OF this assms(2) assms(3), of ops d] show ?thesis using assms(1) by auto
qed

theorem ST_train_surplus_witness:
  "countOf trainedOnce ''X'' \<le> 0 \<and> INT_MIN < countOf trainedOnce ''X'' \<and>
   st_transforms trainedOnce ''X'' = Some 1 \<and>
   ST_trains addUnit ''X'' [[sample_a1]] (acquireAll (\<lambda>d. 0) ''X'' 1 ST_empty) = Inr trainedOnce \<and>
   observe ''X'' (ST_train addUnit ''X'' [sample_a2] trainedOnce)
     = Inr (- 1, [], [(''X'', [sample_a1]), (''X'', [sample_a2])], Some 2)"
proof -
  have c: "countOf trainedOnce ''X'' \<le> 0" by (simp add: ST_eval)
  have m: "INT_MIN < countOf trainedOnce ''X''" by (simp add: ST_eval)
  have u: "st_transforms trainedOnce ''X'' = Some 1" by (simp add: ST_eval)
  have r: "ST_trains addUnit ''X'' [[sample_a1]] (acquireAll (\<lambda>d. 0) ''X'' 1 ST_empty) = Inr trainedOnce"
    by (simp add: ST_eval addUnit_def)
  have t: "observe ''X'' (ST_train addUnit ''X'' [sample_a2] trainedOnce)
     = Inr (- 1, [], [(''X'', [sample_a1]), (''X'', [sample_a2])], Some 2)"
    by (simp add: ST_eval addUnit_def)
  note ST_train_surplus [OF c m u, of addUnit "[sample_a2]"]
  then show ?thesis using c m u r t by blast
qed

text \<open>
  C3 as stated fails: after one \<open>init\<close>, the second call of \<open>train\<close> is not rejected; the
  count ends at \<open>-1\<close> and the shared unit was trained twice, once on each contribution.
\<close>

theorem ST_train_surplus_counterexample:
  "observe ''X'' (ST_trains addUnit ''X'' [[sample_a1], [sample_a2]] (acquireAll (\<lambda>d. 0) ''X'' 1 ST_empty))
     = Inr (- 1, [], [(''X'', [sample_a1]), (''X'', [sample_a2])], Some 2)"
  by (simp add: ST_eval addUnit_def)

end
